theory Spec2Isabelle
  imports Main "HOL-Library.Word"
begin

section \<open>PNaCl SJLJ exception handling: data model\<close>

text \<open>
  Embedding of \<^verbatim>\<open>cxa_pnacl_sjlj_exception.cpp\<close>.

  Addresses are natural numbers, \<open>0\<close> is \<^verbatim>\<open>NULL\<close>. A type descriptor
  (\<^verbatim>\<open>__shim_type_info\<close>) is known by its address. \<^verbatim>\<open>int32_t\<close> and
  \<^verbatim>\<open>uint32_t\<close> are 32-bit words; \<open>sint\<close> gives the signed reading.
  Undefined behaviour of the C++ (an index outside a table, a null or dangling
  pointer that is dereferenced, signed overflow, a jump through a buffer that holds
  no checkpoint) and a loop that never ends are the value \<open>None\<close>.
\<close>

type_synonym ptr = nat
type_synonym int32 = "32 word"
type_synonym uint32 = "32 word"
type_synonym jmp_buf = nat

record action_table_entry =
  clause_id :: int32
  next_clause_list_id :: uint32

record landing_pad_result =
  exception_obj :: ptr
  matched_clause_id :: uint32

text \<open>
  The anonymous union of \<^verbatim>\<open>struct exception_frame\<close>: the same storage holds
  either the \<^verbatim>\<open>jmp_buf\<close> or the \<^verbatim>\<open>landing_pad_result\<close>.
\<close>

datatype frame_storage = Jmpbuf jmp_buf | Result landing_pad_result

record exception_frame =
  storage :: frame_storage
  frame_next :: ptr
  clause_list_id :: uint32

text \<open>
  The fields of \<^verbatim>\<open>__cxa_exception\<close> (and of \<^verbatim>\<open>__cxa_dependent_exception\<close>,
  which shares its tail) that this file reads or writes, with the
  \<^verbatim>\<open>exception_class\<close> of the \<^verbatim>\<open>_Unwind_Exception\<close> header it ends with.
\<close>

record cxa_exception =
  exceptionType :: ptr
  unexpectedHandler :: ptr
  terminateHandler :: ptr
  primaryException :: ptr
  handlerSwitchValue :: int32
  adjustedPtr :: ptr
  exception_class :: "64 word"

text \<open>
  The thread's memory as far as this file touches it: \<^verbatim>\<open>__pnacl_eh_stack\<close>, the
  exception frames by address, and the exception headers by the address of their
  \<^verbatim>\<open>_Unwind_Exception\<close>.
\<close>

record eh_state =
  pnacl_eh_stack :: ptr
  frames :: "ptr \<rightharpoonup> exception_frame"
  exceptions :: "ptr \<rightharpoonup> cxa_exception"

text \<open>
  What the file takes from outside: the three tables written by the compiler pass,
  the comparator \<^verbatim>\<open>__shim_type_info::can_catch\<close> (declared type, thrown type and
  the pointer it receives by reference; it answers and leaves a pointer behind),
  \<^verbatim>\<open>kOurDependentExceptionClass\<close>, the size of \<^verbatim>\<open>_Unwind_Exception\<close>, the
  addresses at which the two local variables \<^verbatim>\<open>obj\<close> live (in
  \<^verbatim>\<open>handle_exception\<close> and in \<^verbatim>\<open>is_exception_caught\<close>), and for
  \<^verbatim>\<open>__cxa_call_unexpected\<close> the descriptor of \<^verbatim>\<open>std::bad_exception\<close>, the
  address of the local \<^verbatim>\<open>be\<close> and the behaviour of \<^verbatim>\<open>std::__unexpected\<close>.
\<close>

datatype unexpected_result = HandlerThrew eh_state ptr | HandlerDidNotReturn

record runtime =
  pnacl_eh_action_table :: "action_table_entry list"
  pnacl_eh_type_table :: "ptr list"
  pnacl_eh_filter_table :: "int32 list"
  can_catch :: "ptr \<Rightarrow> ptr \<Rightarrow> ptr \<Rightarrow> bool \<times> ptr"
  kOurDependentExceptionClass :: "64 word"
  sizeof_Unwind_Exception :: nat
  handle_exception_obj :: ptr
  is_exception_caught_obj :: ptr
  bad_exception_type :: ptr
  bad_exception_obj :: ptr
  std_unexpected :: "ptr \<Rightarrow> eh_state \<Rightarrow> unexpected_result"

definition table_at :: "'a list \<Rightarrow> int \<Rightarrow> 'a option" where
  "table_at xs i = (if 0 \<le> i \<and> i < int (length xs) then Some (xs ! nat i) else None)"

section \<open>Matching\<close>

text \<open>
  Every matching function also returns the number of comparator calls it made.

  The loop of \<^verbatim>\<open>exception_spec_can_catch\<close> over the filter table from
  \<^verbatim>\<open>filter_ptr\<close> on. The parameter \<^verbatim>\<open>obj\<close> is passed to the comparator by
  reference, so what one call leaves in it is what the next call receives.
\<close>

fun filter_scan :: "runtime \<Rightarrow> ptr \<Rightarrow> ptr \<Rightarrow> int32 list \<Rightarrow> (bool \<times> nat) option" where
  "filter_scan rt throw_type obj [] = None"
| "filter_scan rt throw_type obj (f # fs) =
     (if f = 0 then Some (True, 0)
      else case table_at (pnacl_eh_type_table rt) (sint f - 1) of
        None \<Rightarrow> None
      | Some catch_type \<Rightarrow>
          if catch_type = 0 then None
          else (case can_catch rt catch_type throw_type obj of
            (caught, obj') \<Rightarrow>
              if caught then Some (False, 1)
              else (case filter_scan rt throw_type obj' fs of
                None \<Rightarrow> None
              | Some (r, k) \<Rightarrow> Some (r, Suc k))))"

definition exception_spec_can_catch :: "runtime \<Rightarrow> ptr \<Rightarrow> ptr \<Rightarrow> int32 \<Rightarrow> (bool \<times> nat) option" where
  "exception_spec_can_catch rt throw_type obj filter_id =
     (if sint filter_id = - (2 ^ 31) then None
      else if - sint filter_id - 1 < 0 then None
      else filter_scan rt throw_type obj
             (drop (nat (- sint filter_id - 1)) (pnacl_eh_filter_table rt)))"

text \<open>
  \<^verbatim>\<open>does_clause_match(throw_type, obj, clause_id)\<close>, where \<^verbatim>\<open>obj\<close> is a
  \<^verbatim>\<open>void **\<close>: \<open>obj\<close> is that address and \<open>obj_val\<close> is \<^verbatim>\<open>*obj\<close>. The result
  is the answer, the new \<^verbatim>\<open>*obj\<close> and the comparator calls. The filter branch
  passes \<^verbatim>\<open>obj\<close> itself, the catch branch passes \<^verbatim>\<open>*obj\<close>.
\<close>

definition does_clause_match :: "runtime \<Rightarrow> ptr \<Rightarrow> ptr \<Rightarrow> ptr \<Rightarrow> int32 \<Rightarrow> (bool \<times> ptr \<times> nat) option" where
  "does_clause_match rt throw_type obj obj_val cid =
     (if cid = 0 then Some (True, obj_val, 0)
      else if sint cid < 0 then
        (case exception_spec_can_catch rt throw_type obj cid of
           None \<Rightarrow> None
         | Some (r, k) \<Rightarrow> Some (r, obj_val, k))
      else case table_at (pnacl_eh_type_table rt) (sint cid - 1) of
        None \<Rightarrow> None
      | Some catch_type \<Rightarrow>
          if catch_type = 0 then Some (True, obj_val, 0)
          else (case can_catch rt catch_type throw_type obj_val of
            (caught, obj_val') \<Rightarrow> Some (caught, obj_val', 1)))"

text \<open>
  The loop of \<^verbatim>\<open>does_frame_match\<close> from a clause list id on. The result is the
  matched clause id (\<open>None\<close> for \<^verbatim>\<open>false\<close>, which leaves
  \<^verbatim>\<open>*result_clause_id\<close> as it was), the new \<^verbatim>\<open>*obj\<close> and the comparator calls.
\<close>

partial_function (option) clause_list_walk ::
  "runtime \<Rightarrow> ptr \<Rightarrow> ptr \<Rightarrow> ptr \<Rightarrow> int32 \<Rightarrow> (int32 option \<times> ptr \<times> nat) option" where
  "clause_list_walk rt throw_type obj obj_val cl =
     (if cl = 0 then Some (None, obj_val, 0)
      else case table_at (pnacl_eh_action_table rt) (sint cl - 1) of
        None \<Rightarrow> None
      | Some list_node \<Rightarrow>
          (case does_clause_match rt throw_type obj obj_val (clause_id list_node) of
             None \<Rightarrow> None
           | Some (m, obj_val', k) \<Rightarrow>
               if m then Some (Some (clause_id list_node), obj_val', k)
               else Option.bind
                 (clause_list_walk rt throw_type obj obj_val' (next_clause_list_id list_node))
                 (\<lambda>(r, q, k'). Some (r, q, k + k'))))"

definition does_frame_match ::
  "runtime \<Rightarrow> ptr \<Rightarrow> ptr \<Rightarrow> ptr \<Rightarrow> exception_frame \<Rightarrow> (int32 option \<times> ptr \<times> nat) option" where
  "does_frame_match rt throw_type obj obj_val frame =
     clause_list_walk rt throw_type obj obj_val (clause_list_id frame)"

text \<open>
  \<^verbatim>\<open>find_match\<close>: the result is the matching frame's address with its clause id
  (\<open>None\<close> for \<^verbatim>\<open>false\<close>), the new \<^verbatim>\<open>*obj\<close> and the comparator calls.
\<close>

partial_function (option) find_match ::
  "runtime \<Rightarrow> (ptr \<rightharpoonup> exception_frame) \<Rightarrow> ptr \<Rightarrow> ptr \<Rightarrow> ptr \<Rightarrow> ptr
     \<Rightarrow> ((ptr \<times> int32) option \<times> ptr \<times> nat) option" where
  "find_match rt fs throw_type obj obj_val frame =
     (if frame = 0 then Some (None, obj_val, 0)
      else case fs frame of
        None \<Rightarrow> None
      | Some fr \<Rightarrow>
          (case does_frame_match rt throw_type obj obj_val fr of
             None \<Rightarrow> None
           | Some (None, obj_val', k) \<Rightarrow>
               Option.bind (find_match rt fs throw_type obj obj_val' (frame_next fr))
                 (\<lambda>(r, q, k'). Some (r, q, k + k'))
           | Some (Some c, obj_val', k) \<Rightarrow> Some (Some (frame, c), obj_val', k)))"

text \<open>
  \<^verbatim>\<open>is_exception_caught\<close>: \<^verbatim>\<open>obj\<close> is its own by-value parameter, whose
  address it passes on. The frames are read through \<open>fs\<close>.
\<close>

partial_function (option) is_exception_caught ::
  "runtime \<Rightarrow> (ptr \<rightharpoonup> exception_frame) \<Rightarrow> ptr \<Rightarrow> ptr \<Rightarrow> ptr \<Rightarrow> (bool \<times> nat) option" where
  "is_exception_caught rt fs throw_type obj_val frame =
     (if frame = 0 then Some (False, 0)
      else case fs frame of
        None \<Rightarrow> None
      | Some fr \<Rightarrow>
          (case does_frame_match rt throw_type (is_exception_caught_obj rt) obj_val fr of
             None \<Rightarrow> None
           | Some (r, obj_val', k) \<Rightarrow>
               if r \<noteq> None \<and> r \<noteq> Some 0 then Some (True, k)
               else Option.bind
                 (is_exception_caught rt fs throw_type obj_val' (frame_next fr))
                 (\<lambda>(b, k'). Some (b, k + k'))))"

section \<open>The dispatcher\<close>

definition get_exception_header_from_ue :: "eh_state \<Rightarrow> ptr \<Rightarrow> cxa_exception option" where
  "get_exception_header_from_ue st ue_header = exceptions st ue_header"

definition get_object_from_ue :: "runtime \<Rightarrow> eh_state \<Rightarrow> ptr \<Rightarrow> ptr option" where
  "get_object_from_ue rt st ue_header =
     (case exceptions st ue_header of
        None \<Rightarrow> None
      | Some h \<Rightarrow>
          if exception_class h = kOurDependentExceptionClass rt then Some (primaryException h)
          else Some (ue_header + sizeof_Unwind_Exception rt))"

text \<open>
  How a call of \<^verbatim>\<open>handle_exception\<close> ends: it returns, or it leaves through
  \<^verbatim>\<open>longjmp(jmpbuf_copy, 1)\<close>. Both carry the memory they leave behind.
\<close>

datatype exit = Returned eh_state | Longjmp jmp_buf int eh_state

text \<open>
  Lines 256 to 277 of \<^verbatim>\<open>handle_exception\<close>, in the order of the source: the
  stack top, the two fields of the header, the copy of the \<^verbatim>\<open>jmp_buf\<close>, the
  result written over it, the jump through the copy.
\<close>

definition enter_landingpad ::
  "eh_state \<Rightarrow> ptr \<Rightarrow> cxa_exception \<Rightarrow> ptr \<Rightarrow> exception_frame \<Rightarrow> ptr \<Rightarrow> int32 \<Rightarrow> exit option" where
  "enter_landingpad st ue_header xh frame fr obj_val cid =
     (let st1 = st\<lparr>pnacl_eh_stack := frame_next fr\<rparr>;
          st2 = st1\<lparr>exceptions := (exceptions st1)
                  (ue_header \<mapsto> xh\<lparr>adjustedPtr := obj_val, handlerSwitchValue := cid\<rparr>)\<rparr>
      in case storage fr of
           Result r \<Rightarrow> None
         | Jmpbuf jmpbuf_copy \<Rightarrow>
             (let st3 = st2\<lparr>frames := (frames st2)
                    (frame \<mapsto> fr\<lparr>storage :=
                       Result \<lparr>exception_obj = ue_header, matched_clause_id = cid\<rparr>\<rparr>)\<rparr>
              in Some (Longjmp jmpbuf_copy 1 st3)))"

definition handle_exception :: "runtime \<Rightarrow> eh_state \<Rightarrow> ptr \<Rightarrow> bool \<Rightarrow> (exit \<times> nat) option" where
  "handle_exception rt st ue_header check_for_catch =
     (case get_exception_header_from_ue st ue_header of
        None \<Rightarrow> None
      | Some xh \<Rightarrow>
          (case get_object_from_ue rt st ue_header of
             None \<Rightarrow> None
           | Some obj0 \<Rightarrow>
               (case find_match rt (frames st) (exceptionType xh) (handle_exception_obj rt) obj0
                       (pnacl_eh_stack st) of
                  None \<Rightarrow> None
                | Some (None, obj_val, k) \<Rightarrow> Some (Returned st, k)
                | Some (Some (frame, cid), obj_val, k) \<Rightarrow>
                    (case frames st frame of
                       None \<Rightarrow> None
                     | Some fr \<Rightarrow>
                         if check_for_catch \<and> cid = 0 then
                           (case is_exception_caught rt (frames st) (exceptionType xh) obj_val
                                   (frame_next fr) of
                              None \<Rightarrow> None
                            | Some (caught, k') \<Rightarrow>
                                if \<not> caught then Some (Returned st, k + k')
                                else map_option (\<lambda>e. (e, k + k'))
                                       (enter_landingpad st ue_header xh frame fr obj_val cid))
                         else map_option (\<lambda>e. (e, k))
                                (enter_landingpad st ue_header xh frame fr obj_val cid)))))"

section \<open>Entry points\<close>

datatype Unwind_Reason_Code = URC_FOREIGN_EXCEPTION_CAUGHT | URC_END_OF_STACK

text \<open>
  How an entry point ends: it returns a reason code, it jumps to a landing pad, or it
  reaches \<^verbatim>\<open>std::terminate()\<close>.
\<close>

datatype unwind_exit =
    Return_Code Unwind_Reason_Code eh_state
  | Landingpad jmp_buf int eh_state
  | Std_Terminate eh_state

definition pnacl_eh_sjlj_Unwind_RaiseException ::
  "runtime \<Rightarrow> eh_state \<Rightarrow> ptr \<Rightarrow> (unwind_exit \<times> nat) option" where
  "pnacl_eh_sjlj_Unwind_RaiseException rt st ue_header =
     (case handle_exception rt st ue_header True of
        None \<Rightarrow> None
      | Some (Returned st', k) \<Rightarrow> Some (Return_Code URC_END_OF_STACK st', k)
      | Some (Longjmp jb v st', k) \<Rightarrow> Some (Landingpad jb v st', k))"

text \<open>
  \<^verbatim>\<open>__pnacl_eh_resume\<close>: when \<^verbatim>\<open>handle_exception\<close> returns, the exception is
  marked as caught (by the exception object store, outside this file) and
  \<^verbatim>\<open>std::terminate()\<close> is called.
\<close>

definition pnacl_eh_resume :: "runtime \<Rightarrow> eh_state \<Rightarrow> ptr \<Rightarrow> (unwind_exit \<times> nat) option" where
  "pnacl_eh_resume rt st ue_header =
     (case handle_exception rt st ue_header False of
        None \<Rightarrow> None
      | Some (Returned st', k) \<Rightarrow> Some (Std_Terminate st', k)
      | Some (Longjmp jb v st', k) \<Rightarrow> Some (Landingpad jb v st', k))"

definition pnacl_eh_sjlj_Unwind_Resume_or_Rethrow ::
  "runtime \<Rightarrow> eh_state \<Rightarrow> ptr \<Rightarrow> (unwind_exit \<times> nat) option" where
  "pnacl_eh_sjlj_Unwind_Resume_or_Rethrow rt st ue_header =
     pnacl_eh_sjlj_Unwind_RaiseException rt st ue_header"

text \<open>
  \<^verbatim>\<open>__pnacl_eh_sjlj_cxa_call_unexpected\<close>. It reads the filter id and the two
  handlers from the old header, then runs \<^verbatim>\<open>std::__unexpected\<close>. The ways out:
  \<^verbatim>\<open>throw;\<close> of the exception the handler threw, \<^verbatim>\<open>throw be;\<close>,
  \<^verbatim>\<open>std::__terminate(t_handler)\<close>, and, where \<^verbatim>\<open>std::__unexpected\<close> itself
  never comes back, that. A normal return is a fifth constructor, which the
  function never produces.
\<close>

datatype unexpected_exit =
    Rethrow ptr
  | Throw_bad_exception
  | Terminate_with ptr
  | Unexpected_did_not_return
  | Returned_normally

definition pnacl_eh_sjlj_cxa_call_unexpected ::
  "runtime \<Rightarrow> eh_state \<Rightarrow> ptr \<Rightarrow> (unexpected_exit \<times> nat) option" where
  "pnacl_eh_sjlj_cxa_call_unexpected rt st ue_header =
     (case get_exception_header_from_ue st ue_header of
        None \<Rightarrow> None
      | Some old_exception_header \<Rightarrow>
          (let filter_id = handlerSwitchValue old_exception_header;
               u_handler = unexpectedHandler old_exception_header;
               t_handler = terminateHandler old_exception_header
           in case std_unexpected rt u_handler st of
                HandlerDidNotReturn \<Rightarrow> Some (Unexpected_did_not_return, 0)
              | HandlerThrew st' new_ue \<Rightarrow>
                  (case exceptions st' new_ue of
                     None \<Rightarrow> None
                   | Some new_exception_header \<Rightarrow>
                       (case get_object_from_ue rt st' new_ue of
                          None \<Rightarrow> None
                        | Some new_obj \<Rightarrow>
                            (case exception_spec_can_catch rt (exceptionType new_exception_header)
                                    new_obj filter_id of
                               None \<Rightarrow> None
                             | Some (violated, k) \<Rightarrow>
                                 if \<not> violated then Some (Rethrow new_ue, k)
                                 else (case exception_spec_can_catch rt (bad_exception_type rt)
                                              (bad_exception_obj rt) filter_id of
                                         None \<Rightarrow> None
                                       | Some (violated', k') \<Rightarrow>
                                           if \<not> violated' then Some (Throw_bad_exception, k + k')
                                           else Some (Terminate_with t_handler, k + k')))))))"

section \<open>Notions used to state the properties\<close>

text \<open>
  The nodes a clause list consists of, in the order of its links: \<open>clause_chain tab cl ns\<close>
  holds when following \<^verbatim>\<open>next_clause_list_id\<close> from the id \<open>cl\<close> visits exactly the
  nodes \<open>ns\<close> and then reaches the link \<open>0\<close>.
\<close>

fun clause_chain :: "action_table_entry list \<Rightarrow> int32 \<Rightarrow> action_table_entry list \<Rightarrow> bool" where
  "clause_chain tab cl [] = (cl = 0)"
| "clause_chain tab cl (n # ns) =
     (cl \<noteq> 0 \<and> table_at tab (sint cl - 1) = Some n \<and> clause_chain tab (next_clause_list_id n) ns)"

text \<open>
  The value of \<^verbatim>\<open>*obj\<close> after the clauses \<open>cs\<close> have been tried in this order,
  starting from \<open>obj_val\<close>.
\<close>

fun obj_after :: "runtime \<Rightarrow> ptr \<Rightarrow> ptr \<Rightarrow> ptr \<Rightarrow> int32 list \<Rightarrow> ptr" where
  "obj_after rt throw_type obj obj_val [] = obj_val"
| "obj_after rt throw_type obj obj_val (c # cs) =
     obj_after rt throw_type obj
       (case does_clause_match rt throw_type obj obj_val c of
          None \<Rightarrow> obj_val
        | Some (m, q, k) \<Rightarrow> q) cs"

text \<open>
  Every clause of \<open>cs\<close>, tried in this order on the pointer its predecessors left,
  is reported not to match.
\<close>

fun no_clause_matches :: "runtime \<Rightarrow> ptr \<Rightarrow> ptr \<Rightarrow> ptr \<Rightarrow> int32 list \<Rightarrow> bool" where
  "no_clause_matches rt throw_type obj obj_val [] = True"
| "no_clause_matches rt throw_type obj obj_val (c # cs) =
     (case does_clause_match rt throw_type obj obj_val c of
        None \<Rightarrow> False
      | Some (m, q, k) \<Rightarrow> \<not> m \<and> no_clause_matches rt throw_type obj q cs)"

text \<open>
  The clause matcher has an answer for every clause of \<open>cs\<close> that the walk reaches,
  that is, up to the first one that matches.
\<close>

fun clauses_defined :: "runtime \<Rightarrow> ptr \<Rightarrow> ptr \<Rightarrow> ptr \<Rightarrow> int32 list \<Rightarrow> bool" where
  "clauses_defined rt throw_type obj obj_val [] = True"
| "clauses_defined rt throw_type obj obj_val (c # cs) =
     (case does_clause_match rt throw_type obj obj_val c of
        None \<Rightarrow> False
      | Some (m, q, k) \<Rightarrow> m \<or> clauses_defined rt throw_type obj q cs)"

text \<open>
  The filter list of a filter id: the entries of the filter table from index
  \<open>-filter_id - 1\<close> up to the first \<open>0\<close>; and the type descriptors they name.
\<close>

definition filter_list :: "runtime \<Rightarrow> int32 \<Rightarrow> int32 list" where
  "filter_list rt filter_id =
     takeWhile (\<lambda>f. f \<noteq> 0) (drop (nat (- sint filter_id - 1)) (pnacl_eh_filter_table rt))"

definition listed_types :: "runtime \<Rightarrow> int32 \<Rightarrow> ptr list" where
  "listed_types rt filter_id =
     map (\<lambda>f. pnacl_eh_type_table rt ! nat (sint f - 1)) (filter_list rt filter_id)"

text \<open>
  A filter id is well formed when it is negative, its list ends with a \<open>0\<close> inside the
  table, and every entry of the list names a non-null descriptor of the type table.
\<close>

definition filter_wf :: "runtime \<Rightarrow> int32 \<Rightarrow> bool" where
  "filter_wf rt filter_id =
     (sint filter_id < 0 \<and> sint filter_id \<noteq> - (2 ^ 31) \<and>
      0 \<in> set (drop (nat (- sint filter_id - 1)) (pnacl_eh_filter_table rt)) \<and>
      list_all (\<lambda>f. case table_at (pnacl_eh_type_table rt) (sint f - 1) of
                       None \<Rightarrow> False | Some t \<Rightarrow> t \<noteq> 0)
               (filter_list rt filter_id))"

text \<open>
  The pointer the comparator has left after it was asked about the declared types
  \<open>ts\<close> in this order, starting from \<open>obj\<close>; and: none of \<open>ts\<close>, asked in this order,
  each on the pointer its predecessors left, can catch.
\<close>

fun obj_passed :: "runtime \<Rightarrow> ptr \<Rightarrow> ptr \<Rightarrow> ptr list \<Rightarrow> ptr" where
  "obj_passed rt throw_type obj [] = obj"
| "obj_passed rt throw_type obj (t # ts) =
     obj_passed rt throw_type (snd (can_catch rt t throw_type obj)) ts"

fun none_catches :: "runtime \<Rightarrow> ptr \<Rightarrow> ptr \<Rightarrow> ptr list \<Rightarrow> bool" where
  "none_catches rt throw_type obj [] = True"
| "none_catches rt throw_type obj (t # ts) =
     (\<not> fst (can_catch rt t throw_type obj) \<and>
      none_catches rt throw_type (snd (can_catch rt t throw_type obj)) ts)"

text \<open>
  The region stack as a list: \<open>frame_path fs a as\<close> holds when following
  \<^verbatim>\<open>next\<close> from the frame at \<open>a\<close> visits exactly the frames at \<open>as\<close> and then
  reaches \<^verbatim>\<open>NULL\<close>.
\<close>

fun frame_path :: "(ptr \<rightharpoonup> exception_frame) \<Rightarrow> ptr \<Rightarrow> ptr list \<Rightarrow> bool" where
  "frame_path fs a [] = (a = 0)"
| "frame_path fs a (b # bs) =
     (a \<noteq> 0 \<and> a = b \<and>
      (case fs a of None \<Rightarrow> False | Some fr \<Rightarrow> frame_path fs (frame_next fr) bs))"

text \<open>
  A frame's clause list yields no non-cleanup match: whatever the pointer and wherever
  the pointer variable lives, the walk of its clause list ends, and it ends without a
  match or with clause id \<open>0\<close>.
\<close>

definition no_handler_in :: "runtime \<Rightarrow> ptr \<Rightarrow> exception_frame \<Rightarrow> bool" where
  "no_handler_in rt throw_type fr =
     (\<forall>obj obj_val. \<exists>q k.
        does_frame_match rt throw_type obj obj_val fr = Some (None, q, k) \<or>
        does_frame_match rt throw_type obj obj_val fr = Some (Some 0, q, k))"

text \<open>
  The same for one pointer: asked about the pointer \<open>obj_val\<close>, wherever the pointer
  variable lives, the walk of the frame's clause list ends without a match or with
  clause id \<open>0\<close>.
\<close>

definition no_handler_at :: "runtime \<Rightarrow> ptr \<Rightarrow> ptr \<Rightarrow> exception_frame \<Rightarrow> bool" where
  "no_handler_at rt throw_type obj_val fr =
     (\<forall>obj. \<exists>q k.
        does_frame_match rt throw_type obj obj_val fr = Some (None, q, k) \<or>
        does_frame_match rt throw_type obj obj_val fr = Some (Some 0, q, k))"

text \<open>
  A cleanup-only frame: its clause list starts with the cleanup clause \<open>0\<close>, and it
  still holds its checkpoint.
\<close>

definition cleanup_only :: "runtime \<Rightarrow> exception_frame \<Rightarrow> bool" where
  "cleanup_only rt fr =
     (clause_list_id fr \<noteq> 0 \<and>
      (case table_at (pnacl_eh_action_table rt) (sint (clause_list_id fr) - 1) of
         None \<Rightarrow> False
       | Some n \<Rightarrow> clause_id n = 0) \<and>
      (case storage fr of Jmpbuf jb \<Rightarrow> True | Result r \<Rightarrow> False))"

text \<open>
  The raise as section 4.5 of the specification words it: first the probe against the
  full stack, from the top frame; unhandled if it finds no non-cleanup handler; only
  then the search and the commit. It is compared with \<open>handle_exception\<close>, which is
  the code.
\<close>

definition raise_probe_first :: "runtime \<Rightarrow> eh_state \<Rightarrow> ptr \<Rightarrow> (exit \<times> nat) option" where
  "raise_probe_first rt st ue_header =
     (case get_exception_header_from_ue st ue_header of
        None \<Rightarrow> None
      | Some xh \<Rightarrow>
          (case get_object_from_ue rt st ue_header of
             None \<Rightarrow> None
           | Some obj0 \<Rightarrow>
               (case is_exception_caught rt (frames st) (exceptionType xh) obj0
                       (pnacl_eh_stack st) of
                  None \<Rightarrow> None
                | Some (caught, k) \<Rightarrow>
                    if \<not> caught then Some (Returned st, k)
                    else (case find_match rt (frames st) (exceptionType xh)
                                 (handle_exception_obj rt) obj0 (pnacl_eh_stack st) of
                            None \<Rightarrow> None
                          | Some (None, obj_val, k') \<Rightarrow> Some (Returned st, k + k')
                          | Some (Some (frame, cid), obj_val, k') \<Rightarrow>
                              (case frames st frame of
                                 None \<Rightarrow> None
                               | Some fr \<Rightarrow>
                                   map_option (\<lambda>e. (e, k + k'))
                                     (enter_landingpad st ue_header xh frame fr obj_val cid))))))"

text \<open>
  Modelled from the spec: the generated landing pad of a region that only cleans up,
  which is not part of this file. It is entered by the jump, finds clause id \<open>0\<close> in
  the header, runs its destructors and calls \<^verbatim>\<open>__pnacl_eh_resume\<close>; a landing pad
  entered with another clause id enters its handler and the unwind is over.
  \<open>resume_cleanups rt ue n r\<close> lets up to \<open>n\<close> such landing pads run after the exit
  \<open>r\<close>, adding up the comparator calls; \<open>unwind\<close> is a raise followed by them.
\<close>

fun resume_cleanups ::
  "runtime \<Rightarrow> ptr \<Rightarrow> nat \<Rightarrow> (unwind_exit \<times> nat) option \<Rightarrow> (unwind_exit \<times> nat) option" where
  "resume_cleanups rt ue 0 r = r"
| "resume_cleanups rt ue (Suc n) r =
     (case r of
        Some (Landingpad jb v st, k) \<Rightarrow>
          (case exceptions st ue of
             None \<Rightarrow> None
           | Some xh \<Rightarrow>
               if handlerSwitchValue xh = 0 then
                 resume_cleanups rt ue n
                   (case pnacl_eh_resume rt st ue of
                      None \<Rightarrow> None
                    | Some (e, k') \<Rightarrow> Some (e, k + k'))
               else r)
      | _ \<Rightarrow> r)"

definition unwind :: "runtime \<Rightarrow> eh_state \<Rightarrow> ptr \<Rightarrow> nat \<Rightarrow> (unwind_exit \<times> nat) option" where
  "unwind rt st ue n = resume_cleanups rt ue n (pnacl_eh_sjlj_Unwind_RaiseException rt st ue)"

text \<open>
  The situation of an unwind through cleanups: the stack consists of the cleanup-only
  frames \<open>cs\<close>, then the frame \<open>frh\<close> at \<open>h\<close>, then any further frames; the
  header of the exception exists, names the type \<open>ty\<close>, and its object is at
  \<open>obj0\<close>.
\<close>

definition cleanups_above ::
  "runtime \<Rightarrow> eh_state \<Rightarrow> ptr \<Rightarrow> ptr \<Rightarrow> ptr \<Rightarrow> ptr list \<Rightarrow> ptr \<Rightarrow> exception_frame \<Rightarrow> bool" where
  "cleanups_above rt st ue ty obj0 cs h frh =
     ((\<exists>rest. frame_path (frames st) (pnacl_eh_stack st) (cs @ h # rest)) \<and>
      list_all (\<lambda>b. case frames st b of None \<Rightarrow> False | Some fr \<Rightarrow> cleanup_only rt fr) cs \<and>
      frames st h = Some frh \<and>
      (case exceptions st ue of None \<Rightarrow> False | Some xh \<Rightarrow> exceptionType xh = ty) \<and>
      get_object_from_ue rt st ue = Some obj0)"

section \<open>A concrete program\<close>

text \<open>
  Three type descriptors at the addresses \<open>100\<close>, \<open>200\<close> and \<open>300\<close>. The type table
  lists the first two and a null entry, so clause id \<open>1\<close> catches the first type,
  \<open>2\<close> the second and \<open>3\<close> everything. The filter table holds the list of filter
  \<open>-1\<close> (the first type) and of filter \<open>-3\<close> (the first and the second type). The
  clause lists: \<open>1\<close> cleanup; \<open>2\<close> catch the first type; \<open>3\<close> catch the second type,
  then cleanup; \<open>4\<close> catch everything, then the first type; \<open>5\<close> catch the first type,
  then everything; \<open>7\<close> filter \<open>-1\<close>; \<open>8\<close> filter \<open>-3\<close>.
\<close>

definition ex_exception :: "ptr \<Rightarrow> int32 \<Rightarrow> cxa_exception" where
  "ex_exception ty hsv =
     \<lparr>exceptionType = ty, unexpectedHandler = 71, terminateHandler = 72,
      primaryException = 0, handlerSwitchValue = hsv, adjustedPtr = 0, exception_class = 0\<rparr>"

text \<open>
  The handler \<open>71\<close> throws the exception at \<open>600\<close>, after the header at \<open>700\<close>
  has been delivered once more, for filter \<open>-1\<close>.
\<close>

definition ex_unexpected :: "ptr \<Rightarrow> eh_state \<Rightarrow> unexpected_result" where
  "ex_unexpected h st =
     (if h = 71
      then HandlerThrew (st\<lparr>exceptions := (exceptions st)(700 \<mapsto> ex_exception 100 (- 1))\<rparr>) 600
      else HandlerDidNotReturn)"

definition ex_rt :: "(ptr \<Rightarrow> ptr \<Rightarrow> ptr \<Rightarrow> bool \<times> ptr) \<Rightarrow> runtime" where
  "ex_rt cc =
     \<lparr>pnacl_eh_action_table =
        [\<lparr>clause_id = 0, next_clause_list_id = 0\<rparr>,
         \<lparr>clause_id = 1, next_clause_list_id = 0\<rparr>,
         \<lparr>clause_id = 2, next_clause_list_id = 1\<rparr>,
         \<lparr>clause_id = 3, next_clause_list_id = 2\<rparr>,
         \<lparr>clause_id = 1, next_clause_list_id = 6\<rparr>,
         \<lparr>clause_id = 3, next_clause_list_id = 0\<rparr>,
         \<lparr>clause_id = - 1, next_clause_list_id = 0\<rparr>,
         \<lparr>clause_id = - 3, next_clause_list_id = 0\<rparr>],
      pnacl_eh_type_table = [100, 200, 0],
      pnacl_eh_filter_table = [1, 0, 1, 2, 0],
      can_catch = cc,
      kOurDependentExceptionClass = 1,
      sizeof_Unwind_Exception = 32,
      handle_exception_obj = 9000,
      is_exception_caught_obj = 9100,
      bad_exception_type = 200,
      bad_exception_obj = 9200,
      std_unexpected = ex_unexpected\<rparr>"

text \<open>
  Four comparators. \<open>cc_same\<close> compares the descriptors and leaves the pointer alone.
  \<open>cc_looking\<close> looks at the object as well: it only recognises the thrown object
  at \<open>532\<close>. \<open>cc_fail_moves\<close> compares the descriptors, leaves the pointer alone
  when they match and moves it by \<open>8\<close> when they do not. \<open>cc_object_at a\<close> does
  both: it only recognises an object at \<open>a\<close>, and moves the pointer by \<open>8\<close> when it
  reports no match.
\<close>

definition cc_same :: "ptr \<Rightarrow> ptr \<Rightarrow> ptr \<Rightarrow> bool \<times> ptr" where
  "cc_same catch_type throw_type p = (catch_type = throw_type, p)"

definition cc_fail_moves :: "ptr \<Rightarrow> ptr \<Rightarrow> ptr \<Rightarrow> bool \<times> ptr" where
  "cc_fail_moves catch_type throw_type p =
     (if catch_type = throw_type then (True, p) else (False, p + 8))"

definition cc_object_at :: "ptr \<Rightarrow> ptr \<Rightarrow> ptr \<Rightarrow> ptr \<Rightarrow> bool \<times> ptr" where
  "cc_object_at a catch_type throw_type p =
     (if catch_type = throw_type \<and> p = a then (True, p) else (False, p + 8))"

definition cc_looking :: "ptr \<Rightarrow> ptr \<Rightarrow> ptr \<Rightarrow> bool \<times> ptr" where
  "cc_looking catch_type throw_type p = (catch_type = throw_type \<and> p = 532, p)"

text \<open>
  Five frames. From \<open>10\<close>: a frame that catches the second type and cleans up, a frame
  that catches the first type, a frame that only cleans up. From \<open>40\<close>: two frames
  that only clean up, then the frame at \<open>20\<close> and what follows it.
\<close>

definition ex_frame :: "jmp_buf \<Rightarrow> ptr \<Rightarrow> uint32 \<Rightarrow> exception_frame" where
  "ex_frame jb n cl = \<lparr>storage = Jmpbuf jb, frame_next = n, clause_list_id = cl\<rparr>"

definition ex_frames :: "ptr \<rightharpoonup> exception_frame" where
  "ex_frames =
     [10 \<mapsto> ex_frame 1010 20 3, 20 \<mapsto> ex_frame 1020 30 2, 30 \<mapsto> ex_frame 1030 0 1,
      40 \<mapsto> ex_frame 1040 50 1, 50 \<mapsto> ex_frame 1050 20 1]"

text \<open>
  Three exceptions: of the first type at \<open>500\<close>, of the third type at \<open>600\<close>, and at
  \<open>700\<close> one of the first type that was delivered to a landing pad for filter \<open>-3\<close>.
\<close>

definition ex_exceptions :: "ptr \<rightharpoonup> cxa_exception" where
  "ex_exceptions =
     [500 \<mapsto> ex_exception 100 0, 600 \<mapsto> ex_exception 300 0, 700 \<mapsto> ex_exception 100 (- 3)]"

definition ex_state :: "ptr \<Rightarrow> eh_state" where
  "ex_state a = \<lparr>pnacl_eh_stack = a, frames = ex_frames, exceptions = ex_exceptions\<rparr>"

text \<open>
  A memory with one frame, at \<open>60\<close>, whose clause list is list \<open>5\<close>: catch the first
  type, then everything.
\<close>

definition ex_catch_state :: eh_state where
  "ex_catch_state =
     \<lparr>pnacl_eh_stack = 60, frames = [60 \<mapsto> ex_frame 1060 0 5], exceptions = ex_exceptions\<rparr>"

section \<open>Evaluation of the concrete program\<close>

lemmas ex_defs = ex_rt_def cc_same_def cc_looking_def cc_fail_moves_def cc_object_at_def
  ex_frame_def ex_frames_def ex_exception_def ex_exceptions_def ex_state_def ex_catch_state_def
  ex_unexpected_def table_at_def

lemmas run_defs = exception_spec_can_catch_def does_clause_match_def clause_list_walk.simps
  does_frame_match_def find_match.simps is_exception_caught.simps
  get_exception_header_from_ue_def get_object_from_ue_def enter_landingpad_def
  handle_exception_def

section \<open>The region stack as a list\<close>

lemma frame_path_unique:
  "frame_path fs a xs \<Longrightarrow> frame_path fs a ys \<Longrightarrow> xs = ys"
proof (induction xs arbitrary: a ys)
  case Nil
  then show ?case by (cases ys) auto
next
  case (Cons x xs)
  then show ?case by (cases ys) (auto split: option.splits)
qed

lemma frame_path_drop:
  "frame_path fs a (pre @ bs) \<Longrightarrow> \<exists>b. frame_path fs b bs"
proof (induction pre arbitrary: a)
  case Nil
  then show ?case by auto
next
  case (Cons x pre)
  from Cons.prems have "\<exists>fr::exception_frame. frame_path fs (frame_next fr) (pre @ bs)"
    by (auto split: option.splits)
  then obtain fr :: exception_frame where "frame_path fs (frame_next fr) (pre @ bs)" ..
  then show ?case by (rule Cons.IH)
qed

lemma frame_path_suffix:
  assumes "frame_path fs a (pre @ b # post)"
  shows "frame_path fs b (b # post)"
proof -
  from frame_path_drop [OF assms] obtain c where "frame_path fs c (b # post)" ..
  then show ?thesis by (cases "c = b") auto
qed

text \<open>A frame is not among the frames that follow it.\<close>

lemma frame_path_not_behind:
  assumes "fs f = Some fr" and "frame_path fs (frame_next fr) bs"
  shows "f \<notin> set bs"
proof
  assume "f \<in> set bs"
  then obtain pre post where bs: "bs = pre @ f # post"
    by (auto simp: in_set_conv_decomp)
  with assms(2) have "frame_path fs f (f # post)"
    using frame_path_suffix by blast
  with assms(1) have "frame_path fs (frame_next fr) post" by simp
  with assms(2) have "bs = post" by (rule frame_path_unique)
  with bs show False by simp
qed

lemma frame_path_update:
  "frame_path fs a bs \<Longrightarrow> f \<notin> set bs \<Longrightarrow> frame_path (fs(f \<mapsto> x)) a bs"
  by (induction bs arbitrary: a) (auto split: option.splits)

section \<open>Commit and transfer\<close>

lemma enter_landingpad_Some:
  assumes "enter_landingpad st ue xh frame fr obj_val cid = Some e"
  shows "\<exists>jb. storage fr = Jmpbuf jb \<and>
     e = Longjmp jb 1
       \<lparr>pnacl_eh_stack = frame_next fr,
        frames = (frames st)(frame \<mapsto> fr\<lparr>storage :=
                    Result \<lparr>exception_obj = ue, matched_clause_id = cid\<rparr>\<rparr>),
        exceptions = (exceptions st)
          (ue \<mapsto> xh\<lparr>adjustedPtr := obj_val, handlerSwitchValue := cid\<rparr>)\<rparr>"
  using assms by (cases "storage fr") (auto simp: enter_landingpad_def Let_def)

lemma handle_exception_Longjmp:
  assumes "handle_exception rt st ue chk = Some (Longjmp jb v st', n)"
  shows "\<exists>xh obj0 frame fr cid obj_val k.
    exceptions st ue = Some xh \<and> get_object_from_ue rt st ue = Some obj0 \<and>
    find_match rt (frames st) (exceptionType xh) (handle_exception_obj rt) obj0 (pnacl_eh_stack st)
      = Some (Some (frame, cid), obj_val, k) \<and>
    frames st frame = Some fr \<and>
    enter_landingpad st ue xh frame fr obj_val cid = Some (Longjmp jb v st') \<and>
    (if chk \<and> cid = 0
     then \<exists>k'. is_exception_caught rt (frames st) (exceptionType xh) obj_val (frame_next fr)
                  = Some (True, k') \<and> n = k + k'
     else n = k)"
proof -
  from assms obtain xh where xh: "exceptions st ue = Some xh"
    by (auto simp: handle_exception_def get_exception_header_from_ue_def split: option.splits)
  from assms xh obtain obj0 where obj0: "get_object_from_ue rt st ue = Some obj0"
    by (auto simp: handle_exception_def get_exception_header_from_ue_def split: option.splits)
  from assms xh obj0 obtain r obj_val k where
    fm: "find_match rt (frames st) (exceptionType xh) (handle_exception_obj rt) obj0
           (pnacl_eh_stack st) = Some (r, obj_val, k)"
    by (auto simp: handle_exception_def get_exception_header_from_ue_def split: option.splits)
  from assms xh obj0 fm obtain frame cid where r: "r = Some (frame, cid)"
    by (cases r) (auto simp: handle_exception_def get_exception_header_from_ue_def)
  from assms xh obj0 fm r obtain fr where fr: "frames st frame = Some fr"
    by (auto simp: handle_exception_def get_exception_header_from_ue_def split: option.splits)
  show ?thesis
  proof (cases "chk \<and> cid = 0")
    case True
    with assms xh obj0 fm r fr obtain caught k' where
      c: "is_exception_caught rt (frames st) (exceptionType xh) obj_val (frame_next fr)
            = Some (caught, k')"
      by (auto simp: handle_exception_def get_exception_header_from_ue_def split: option.splits)
    with True assms xh obj0 fm r fr have "caught"
      "enter_landingpad st ue xh frame fr obj_val cid = Some (Longjmp jb v st')" "n = k + k'"
      by (auto simp: handle_exception_def get_exception_header_from_ue_def split: if_splits)
    with True xh obj0 fm r fr c show ?thesis by auto
  next
    case False
    with assms xh obj0 fm r fr have
      "enter_landingpad st ue xh frame fr obj_val cid = Some (Longjmp jb v st')" "n = k"
      by (auto simp: handle_exception_def get_exception_header_from_ue_def)
    with False xh obj0 fm r fr show ?thesis by auto
  qed
qed

text \<open>
  C1. Whenever \<open>handle_exception\<close> leaves through the jump, the search had found a
  frame \<open>frame\<close> with a clause id \<open>cid\<close> and a pointer \<open>obj_val\<close>, and afterwards: the
  stack top is that frame's \<open>next\<close>; the header holds \<open>obj_val\<close> as adjusted pointer and
  \<open>cid\<close> as switch value; the token jumped through is the checkpoint the frame held
  before its storage was overwritten, and the value passed is \<open>1\<close>; the frame's storage
  now holds the result pair of the header's address and \<open>cid\<close>; no other frame has
  changed; and the frames that followed the matched frame are, unchanged and in the
  same order, the new stack.
\<close>

theorem commit_postcondition:
  assumes "handle_exception rt st ue chk = Some (Longjmp jb v st', n)"
  shows "\<exists>xh obj0 frame fr cid obj_val k.
    exceptions st ue = Some xh \<and> get_object_from_ue rt st ue = Some obj0 \<and>
    find_match rt (frames st) (exceptionType xh) (handle_exception_obj rt) obj0 (pnacl_eh_stack st)
      = Some (Some (frame, cid), obj_val, k) \<and>
    frames st frame = Some fr \<and>
    pnacl_eh_stack st' = frame_next fr \<and>
    exceptions st' = (exceptions st)
      (ue \<mapsto> xh\<lparr>adjustedPtr := obj_val, handlerSwitchValue := cid\<rparr>) \<and>
    storage fr = Jmpbuf jb \<and> v = 1 \<and>
    frames st' = (frames st)(frame \<mapsto> fr\<lparr>storage :=
                    Result \<lparr>exception_obj = ue, matched_clause_id = cid\<rparr>\<rparr>) \<and>
    (\<forall>bs. frame_path (frames st) (frame_next fr) bs \<longrightarrow>
       frame_path (frames st') (pnacl_eh_stack st') bs \<and>
       (\<forall>b\<in>set bs. frames st' b = frames st b))"
proof -
  from handle_exception_Longjmp [OF assms] obtain xh obj0 frame fr cid obj_val k where
    h: "exceptions st ue = Some xh" "get_object_from_ue rt st ue = Some obj0"
       "find_match rt (frames st) (exceptionType xh) (handle_exception_obj rt) obj0
          (pnacl_eh_stack st) = Some (Some (frame, cid), obj_val, k)"
       "frames st frame = Some fr"
       "enter_landingpad st ue xh frame fr obj_val cid = Some (Longjmp jb v st')"
    by blast
  from enter_landingpad_Some [OF h(5)] have
    e: "storage fr = Jmpbuf jb" "v = 1"
       "pnacl_eh_stack st' = frame_next fr"
       "frames st' = (frames st)(frame \<mapsto> fr\<lparr>storage :=
                    Result \<lparr>exception_obj = ue, matched_clause_id = cid\<rparr>\<rparr>)"
       "exceptions st' = (exceptions st)
          (ue \<mapsto> xh\<lparr>adjustedPtr := obj_val, handlerSwitchValue := cid\<rparr>)"
    by auto
  have "frame_path (frames st') (pnacl_eh_stack st') bs \<and> (\<forall>b\<in>set bs. frames st' b = frames st b)"
    if p: "frame_path (frames st) (frame_next fr) bs" for bs
  proof -
    from h(4) p have nb: "frame \<notin> set bs" by (rule frame_path_not_behind)
    with p e(3,4) show ?thesis by (auto simp: frame_path_update)
  qed
  with h e show ?thesis by blast
qed

lemma ex_raise_500:
  "\<exists>st' n. handle_exception (ex_rt cc_same) (ex_state 10) 500 True = Some (Longjmp 1010 1 st', n)"
  by (simp add: ex_defs run_defs)

theorem commit_postcondition_witness:
  "\<exists>st' n. handle_exception (ex_rt cc_same) (ex_state 10) 500 True = Some (Longjmp 1010 1 st', n) \<and>
     pnacl_eh_stack st' = 20 \<and>
     exceptions st' 500 = Some ((ex_exception 100 0)\<lparr>adjustedPtr := 532\<rparr>) \<and>
     frames st' 10 = Some ((ex_frame 1010 20 3)\<lparr>storage :=
                        Result \<lparr>exception_obj = 500, matched_clause_id = 0\<rparr>\<rparr>) \<and>
     frames st' 20 = Some (ex_frame 1020 30 2) \<and> frames st' 30 = Some (ex_frame 1030 0 1) \<and>
     frame_path (frames st') (pnacl_eh_stack st') [20, 30]"
proof -
  from ex_raise_500 obtain st' n where
    r: "handle_exception (ex_rt cc_same) (ex_state 10) 500 True = Some (Longjmp 1010 1 st', n)"
    by blast
  from commit_postcondition [OF r] obtain xh obj0 frame fr cid obj_val k where
    c: "exceptions (ex_state 10) 500 = Some xh"
       "get_object_from_ue (ex_rt cc_same) (ex_state 10) 500 = Some obj0"
       "find_match (ex_rt cc_same) (frames (ex_state 10)) (exceptionType xh)
          (handle_exception_obj (ex_rt cc_same)) obj0 (pnacl_eh_stack (ex_state 10))
        = Some (Some (frame, cid), obj_val, k)"
       "frames (ex_state 10) frame = Some fr"
       "pnacl_eh_stack st' = frame_next fr"
       "exceptions st' = (exceptions (ex_state 10))
          (500 \<mapsto> xh\<lparr>adjustedPtr := obj_val, handlerSwitchValue := cid\<rparr>)"
       "frames st' = (frames (ex_state 10))(frame \<mapsto> fr\<lparr>storage :=
                    Result \<lparr>exception_obj = 500, matched_clause_id = cid\<rparr>\<rparr>)"
       "\<forall>bs. frame_path (frames (ex_state 10)) (frame_next fr) bs \<longrightarrow>
          frame_path (frames st') (pnacl_eh_stack st') bs \<and>
          (\<forall>b\<in>set bs. frames st' b = frames (ex_state 10) b)"
    by blast
  from c(1) have xh: "xh = ex_exception 100 0" by (simp add: ex_defs)
  from c(2) have obj0: "obj0 = 532" by (simp add: ex_defs run_defs)
  from c(3) xh obj0 have f: "frame = 10" "cid = 0" "obj_val = 532"
    by (simp_all add: ex_defs run_defs)
  from c(4) f have fr: "fr = ex_frame 1010 20 3" by (simp add: ex_defs)
  have fp: "frame_path (frames (ex_state 10)) (frame_next fr) [20, 30]"
    by (simp add: fr ex_defs)
  note q = c(8) [rule_format, OF fp]
  from q have p: "frame_path (frames st') (pnacl_eh_stack st') [20, 30]"
    by (rule conjunct1)
  from q have p': "frames st' 20 = frames (ex_state 10) 20" "frames st' 30 = frames (ex_state 10) 30"
    by simp_all
  from c(5) fr have "pnacl_eh_stack st' = 20" by (simp add: ex_defs)
  moreover from c(6) xh f have "exceptions st' 500 = Some ((ex_exception 100 0)\<lparr>adjustedPtr := 532\<rparr>)"
    by (simp add: ex_defs)
  moreover from c(7) f fr have "frames st' 10 = Some ((ex_frame 1010 20 3)\<lparr>storage :=
                        Result \<lparr>exception_obj = 500, matched_clause_id = 0\<rparr>\<rparr>)"
    by simp
  moreover from p' have "frames st' 20 = Some (ex_frame 1020 30 2)" "frames st' 30 = Some (ex_frame 1030 0 1)"
    by (simp_all add: ex_defs)
  ultimately show ?thesis using r p by blast
qed

section \<open>A raise that nothing handles\<close>

lemma is_exception_caught_no_handler:
  assumes "frame_path fs a as"
    and "list_all (\<lambda>b. case fs b of None \<Rightarrow> False | Some fr \<Rightarrow> no_handler_in rt ty fr) as"
  shows "\<exists>k. is_exception_caught rt fs ty p a = Some (False, k)"
  using assms
proof (induction as arbitrary: a p)
  case Nil
  then show ?case by (simp add: is_exception_caught.simps)
next
  case (Cons b bs)
  from Cons.prems obtain fr where fr: "a \<noteq> 0" "a = b" "fs a = Some fr"
    "frame_path fs (frame_next fr) bs" "no_handler_in rt ty fr"
    by (auto split: option.splits)
  from fr(5) obtain r q k where
    m: "does_frame_match rt ty (is_exception_caught_obj rt) p fr = Some (r, q, k)"
       "r = None \<or> r = Some 0"
    unfolding no_handler_in_def by blast
  from Cons.IH [OF fr(4)] Cons.prems(2) obtain k' where
    "is_exception_caught rt fs ty q (frame_next fr) = Some (False, k')"
    by auto
  with fr m show ?case
    by (subst is_exception_caught.simps) auto
qed

lemma find_match_no_handler:
  assumes "frame_path fs a as"
    and "list_all (\<lambda>b. case fs b of None \<Rightarrow> False | Some fr \<Rightarrow> no_handler_in rt ty fr) as"
  shows "\<exists>r q k. find_match rt fs ty obj p a = Some (r, q, k) \<and>
           (r = None \<or>
            (\<exists>f fr bs. r = Some (f, 0) \<and> fs f = Some fr \<and> frame_path fs (frame_next fr) bs \<and>
               list_all (\<lambda>b. case fs b of None \<Rightarrow> False | Some fr \<Rightarrow> no_handler_in rt ty fr) bs))"
  using assms
proof (induction as arbitrary: a p)
  case Nil
  then show ?case by (simp add: find_match.simps)
next
  case (Cons b bs)
  from Cons.prems obtain fr where fr: "a \<noteq> 0" "a = b" "fs a = Some fr"
    "frame_path fs (frame_next fr) bs" "no_handler_in rt ty fr"
    and rest: "list_all (\<lambda>b. case fs b of None \<Rightarrow> False | Some fr \<Rightarrow> no_handler_in rt ty fr) bs"
    by (auto split: option.splits)
  from fr(5) obtain r q k where
    m: "does_frame_match rt ty obj p fr = Some (r, q, k)" "r = None \<or> r = Some 0"
    unfolding no_handler_in_def by blast
  from m(2) show ?case
  proof
    assume r: "r = None"
    from Cons.IH [OF fr(4) rest] obtain r' q' k' where
      "find_match rt fs ty obj q (frame_next fr) = Some (r', q', k')"
      "r' = None \<or>
            (\<exists>f fr bs. r' = Some (f, 0) \<and> fs f = Some fr \<and> frame_path fs (frame_next fr) bs \<and>
               list_all (\<lambda>b. case fs b of None \<Rightarrow> False | Some fr \<Rightarrow> no_handler_in rt ty fr) bs)"
      by blast
    with fr m r show ?thesis
      by (subst find_match.simps) auto
  next
    assume r: "r = Some 0"
    with fr m rest show ?thesis
      by (subst find_match.simps) auto
  qed
qed

text \<open>
  When no frame on the stack has a clause list that yields a non-cleanup match for the
  thrown type, whatever pointer its walk is given, the raise returns
  \<^verbatim>\<open>_URC_END_OF_STACK\<close> and leaves the memory as it found it.
\<close>

lemma raise_unhandled_leaves_state:
  assumes "exceptions st ue = Some xh"
    and "frame_path (frames st) (pnacl_eh_stack st) as"
    and "list_all (\<lambda>a. case frames st a of None \<Rightarrow> False
                       | Some fr \<Rightarrow> no_handler_in rt (exceptionType xh) fr) as"
  shows "\<exists>k. pnacl_eh_sjlj_Unwind_RaiseException rt st ue = Some (Return_Code URC_END_OF_STACK st, k)"
proof -
  from assms(1) have "\<exists>obj0. get_object_from_ue rt st ue = Some obj0"
    by (simp add: get_object_from_ue_def)
  then obtain obj0 where obj0: "get_object_from_ue rt st ue = Some obj0" ..
  from find_match_no_handler [OF assms(2,3)] obtain r q k where
    fm: "find_match rt (frames st) (exceptionType xh) (handle_exception_obj rt) obj0 (pnacl_eh_stack st)
           = Some (r, q, k)"
    and r: "r = None \<or>
            (\<exists>f fr bs. r = Some (f, 0) \<and> frames st f = Some fr \<and> frame_path (frames st) (frame_next fr) bs \<and>
               list_all (\<lambda>b. case frames st b of None \<Rightarrow> False
                  | Some fr \<Rightarrow> no_handler_in rt (exceptionType xh) fr) bs)"
    by blast
  from r have "\<exists>k. handle_exception rt st ue True = Some (Returned st, k)"
  proof
    assume "r = None"
    with assms(1) obj0 fm show ?thesis
      by (simp add: handle_exception_def get_exception_header_from_ue_def)
  next
    assume "\<exists>f fr bs. r = Some (f, 0) \<and> frames st f = Some fr \<and> frame_path (frames st) (frame_next fr) bs \<and>
               list_all (\<lambda>b. case frames st b of None \<Rightarrow> False
                  | Some fr \<Rightarrow> no_handler_in rt (exceptionType xh) fr) bs"
    then obtain f fr bs where f: "r = Some (f, 0)" "frames st f = Some fr"
      "frame_path (frames st) (frame_next fr) bs"
      "list_all (\<lambda>b. case frames st b of None \<Rightarrow> False
                  | Some fr \<Rightarrow> no_handler_in rt (exceptionType xh) fr) bs"
      by blast
    from is_exception_caught_no_handler [OF f(3,4)] obtain k' where
      "is_exception_caught rt (frames st) (exceptionType xh) q (frame_next fr) = Some (False, k')"
      by blast
    with assms(1) obj0 fm f show ?thesis
      by (simp add: handle_exception_def get_exception_header_from_ue_def)
  qed
  then show ?thesis
    by (auto simp: pnacl_eh_sjlj_Unwind_RaiseException_def)
qed

text \<open>
  With a comparator that leaves the pointer alone when it reports no match, a clause
  that is reported not to match, and the cleanup clause, leave the caller's pointer as
  it was; so does the walk of a clause list that ends without a match or with clause
  id \<open>0\<close>.
\<close>

lemma does_clause_match_keeps:
  assumes "\<And>t p. \<not> fst (can_catch rt t ty p) \<Longrightarrow> snd (can_catch rt t ty p) = p"
    and "does_clause_match rt ty obj p c = Some (m, q, k)"
    and "\<not> m \<or> c = 0"
  shows "q = p"
proof (cases "c = 0 \<or> sint c < 0")
  case True
  with assms(2) show ?thesis
    by (auto simp: does_clause_match_def split: if_splits option.splits)
next
  case False
  with assms(3) have m: "\<not> m" by simp
  from False assms(2) obtain t where
    t: "table_at (pnacl_eh_type_table rt) (sint c - 1) = Some t"
    by (auto simp: does_clause_match_def split: option.splits)
  show ?thesis
  proof (cases "t = 0")
    case True
    with False t assms(2) m show ?thesis by (simp add: does_clause_match_def)
  next
    case nz: False
    with False t assms(2) have
      "m = fst (can_catch rt t ty p)" "q = snd (can_catch rt t ty p)"
      by (auto simp: does_clause_match_def split: prod.splits)
    with m assms(1) show ?thesis by simp
  qed
qed

lemma clause_list_walk_keeps:
  assumes "clause_list_walk rt ty obj p cl = Some y"
  shows "(\<forall>t p. \<not> fst (can_catch rt t ty p) \<longrightarrow> snd (can_catch rt t ty p) = p) \<longrightarrow>
         (fst y = None \<or> fst y = Some 0) \<longrightarrow> fst (snd y) = p"
proof (rule clause_list_walk.raw_induct
    [where P = "\<lambda>rt ty obj p cl y.
       (\<forall>t p. \<not> fst (can_catch rt t ty p) \<longrightarrow> snd (can_catch rt t ty p) = p) \<longrightarrow>
       (fst y = None \<or> fst y = Some 0) \<longrightarrow> fst (snd y) = p", OF _ assms])
  fix walk :: "runtime \<Rightarrow> ptr \<Rightarrow> ptr \<Rightarrow> ptr \<Rightarrow> int32 \<Rightarrow> (int32 option \<times> ptr \<times> nat) option"
  fix rt ty obj p cl y
  assume ih: "\<And>rt ty obj p cl y. walk rt ty obj p cl = Some y \<Longrightarrow>
       (\<forall>t p. \<not> fst (can_catch rt t ty p) \<longrightarrow> snd (can_catch rt t ty p) = p) \<longrightarrow>
       (fst y = None \<or> fst y = Some 0) \<longrightarrow> fst (snd y) = p"
  assume body: "(if cl = 0 then Some (None, p, 0)
      else case table_at (pnacl_eh_action_table rt) (sint cl - 1) of
           None \<Rightarrow> None
           | Some list_node \<Rightarrow>
               case does_clause_match rt ty obj p (clause_id list_node) of
               None \<Rightarrow> None
               | Some (m, obj_val', k) \<Rightarrow>
                   if m then Some (Some (clause_id list_node), obj_val', k)
                   else Option.bind
                         (walk rt ty obj obj_val' (next_clause_list_id list_node))
                         (\<lambda>(r, q, k'). Some (r, q, k + k'))) = Some y"
  show "(\<forall>t p. \<not> fst (can_catch rt t ty p) \<longrightarrow> snd (can_catch rt t ty p) = p) \<longrightarrow>
       (fst y = None \<or> fst y = Some 0) \<longrightarrow> fst (snd y) = p"
  proof (intro impI)
    assume cc: "\<forall>t p. \<not> fst (can_catch rt t ty p) \<longrightarrow> snd (can_catch rt t ty p) = p"
      and r: "fst y = None \<or> fst y = Some 0"
    show "fst (snd y) = p"
    proof (cases "cl = 0")
      case True
      with body show ?thesis by auto
    next
      case False
      with body obtain n m q k where
        n: "table_at (pnacl_eh_action_table rt) (sint cl - 1) = Some n"
        and dm: "does_clause_match rt ty obj p (clause_id n) = Some (m, q, k)"
        by (auto split: option.splits)
      show ?thesis
      proof (cases m)
        case True
        with False n dm body have y: "y = (Some (clause_id n), q, k)" by simp
        with r have "clause_id n = 0" by simp
        with cc dm have "q = p" by (auto intro: does_clause_match_keeps)
        with y show ?thesis by simp
      next
        case nm: False
        with cc dm have qp: "q = p" by (auto intro: does_clause_match_keeps)
        from False n dm nm body obtain y' where
          w: "walk rt ty obj q (next_clause_list_id n) = Some y'"
          and y: "y = (fst y', fst (snd y'), k + snd (snd y'))"
          by (auto split: Option.bind_splits)
        from ih [OF w] cc r y have "fst (snd y') = q" by auto
        with y qp show ?thesis by simp
      qed
    qed
  qed
qed

lemma does_frame_match_keeps:
  assumes "\<And>t p. \<not> fst (can_catch rt t ty p) \<Longrightarrow> snd (can_catch rt t ty p) = p"
    and "does_frame_match rt ty obj p fr = Some (r, q, k)"
    and "r = None \<or> r = Some 0"
  shows "q = p"
  using clause_list_walk_keeps [of rt ty obj p "clause_list_id fr" "(r, q, k)"] assms
  by (simp add: does_frame_match_def)

lemma is_exception_caught_no_handler_at:
  assumes cc: "\<And>t p. \<not> fst (can_catch rt t ty p) \<Longrightarrow> snd (can_catch rt t ty p) = p"
    and "frame_path fs a as"
    and "list_all (\<lambda>b. case fs b of None \<Rightarrow> False | Some fr \<Rightarrow> no_handler_at rt ty p fr) as"
  shows "\<exists>k. is_exception_caught rt fs ty p a = Some (False, k)"
  using assms(2,3)
proof (induction as arbitrary: a)
  case Nil
  then show ?case by (simp add: is_exception_caught.simps)
next
  case (Cons b bs)
  from Cons.prems obtain fr where fr: "a \<noteq> 0" "a = b" "fs a = Some fr"
    "frame_path fs (frame_next fr) bs" "no_handler_at rt ty p fr"
    by (auto split: option.splits)
  from fr(5) obtain r q k where
    m: "does_frame_match rt ty (is_exception_caught_obj rt) p fr = Some (r, q, k)"
       "r = None \<or> r = Some 0"
    unfolding no_handler_at_def by blast
  from cc m have q: "q = p" by (rule does_frame_match_keeps)
  from Cons.IH [OF fr(4)] Cons.prems(2) obtain k' where
    "is_exception_caught rt fs ty p (frame_next fr) = Some (False, k')"
    by auto
  with fr m q show ?case
    by (subst is_exception_caught.simps) auto
qed

lemma find_match_no_handler_at:
  assumes cc: "\<And>t p. \<not> fst (can_catch rt t ty p) \<Longrightarrow> snd (can_catch rt t ty p) = p"
    and "frame_path fs a as"
    and "list_all (\<lambda>b. case fs b of None \<Rightarrow> False | Some fr \<Rightarrow> no_handler_at rt ty p fr) as"
  shows "\<exists>r k. find_match rt fs ty obj p a = Some (r, p, k) \<and>
           (r = None \<or>
            (\<exists>f fr bs. r = Some (f, 0) \<and> fs f = Some fr \<and> frame_path fs (frame_next fr) bs \<and>
               list_all (\<lambda>b. case fs b of None \<Rightarrow> False | Some fr \<Rightarrow> no_handler_at rt ty p fr) bs))"
  using assms(2,3)
proof (induction as arbitrary: a)
  case Nil
  then show ?case by (simp add: find_match.simps)
next
  case (Cons b bs)
  from Cons.prems obtain fr where fr: "a \<noteq> 0" "a = b" "fs a = Some fr"
    "frame_path fs (frame_next fr) bs" "no_handler_at rt ty p fr"
    and rest: "list_all (\<lambda>b. case fs b of None \<Rightarrow> False | Some fr \<Rightarrow> no_handler_at rt ty p fr) bs"
    by (auto split: option.splits)
  from fr(5) obtain r q k where
    m: "does_frame_match rt ty obj p fr = Some (r, q, k)" "r = None \<or> r = Some 0"
    unfolding no_handler_at_def by blast
  from cc m have q: "q = p" by (rule does_frame_match_keeps)
  from m(2) show ?case
  proof
    assume r: "r = None"
    from Cons.IH [OF fr(4) rest] obtain r' k' where
      "find_match rt fs ty obj p (frame_next fr) = Some (r', p, k')"
      "r' = None \<or>
            (\<exists>f fr bs. r' = Some (f, 0) \<and> fs f = Some fr \<and> frame_path fs (frame_next fr) bs \<and>
               list_all (\<lambda>b. case fs b of None \<Rightarrow> False | Some fr \<Rightarrow> no_handler_at rt ty p fr) bs)"
      by blast
    with fr m r q show ?thesis
      by (subst find_match.simps) auto
  next
    assume r: "r = Some 0"
    with fr m rest q show ?thesis
      by (subst find_match.simps) auto
  qed
qed

text \<open>
  So with such a comparator it is enough that no frame yields a non-cleanup match for
  the thrown type and the thrown object's pointer: the raise returns
  \<^verbatim>\<open>_URC_END_OF_STACK\<close> and leaves the memory as it found it.
\<close>

lemma raise_unhandled_plain:
  assumes "exceptions st ue = Some xh"
    and "get_object_from_ue rt st ue = Some obj0"
    and cc: "\<And>t p. \<not> fst (can_catch rt t (exceptionType xh) p)
               \<Longrightarrow> snd (can_catch rt t (exceptionType xh) p) = p"
    and "frame_path (frames st) (pnacl_eh_stack st) as"
    and "list_all (\<lambda>a. case frames st a of None \<Rightarrow> False
                       | Some fr \<Rightarrow> no_handler_at rt (exceptionType xh) obj0 fr) as"
  shows "\<exists>k. pnacl_eh_sjlj_Unwind_RaiseException rt st ue = Some (Return_Code URC_END_OF_STACK st, k)"
proof -
  from find_match_no_handler_at [OF cc assms(4,5)] obtain r k where
    fm: "find_match rt (frames st) (exceptionType xh) (handle_exception_obj rt) obj0 (pnacl_eh_stack st)
           = Some (r, obj0, k)"
    and r: "r = None \<or>
            (\<exists>f fr bs. r = Some (f, 0) \<and> frames st f = Some fr \<and> frame_path (frames st) (frame_next fr) bs \<and>
               list_all (\<lambda>b. case frames st b of None \<Rightarrow> False
                  | Some fr \<Rightarrow> no_handler_at rt (exceptionType xh) obj0 fr) bs)"
    by blast
  from r have "\<exists>k. handle_exception rt st ue True = Some (Returned st, k)"
  proof
    assume "r = None"
    with assms(1,2) fm show ?thesis
      by (simp add: handle_exception_def get_exception_header_from_ue_def)
  next
    assume "\<exists>f fr bs. r = Some (f, 0) \<and> frames st f = Some fr \<and> frame_path (frames st) (frame_next fr) bs \<and>
               list_all (\<lambda>b. case frames st b of None \<Rightarrow> False
                  | Some fr \<Rightarrow> no_handler_at rt (exceptionType xh) obj0 fr) bs"
    then obtain f fr bs where f: "r = Some (f, 0)" "frames st f = Some fr"
      "frame_path (frames st) (frame_next fr) bs"
      "list_all (\<lambda>b. case frames st b of None \<Rightarrow> False
                  | Some fr \<Rightarrow> no_handler_at rt (exceptionType xh) obj0 fr) bs"
      by blast
    from is_exception_caught_no_handler_at [OF cc f(3,4)] obtain k' where
      "is_exception_caught rt (frames st) (exceptionType xh) obj0 (frame_next fr) = Some (False, k')"
      by blast
    with assms(1,2) fm f show ?thesis
      by (simp add: handle_exception_def get_exception_header_from_ue_def)
  qed
  then show ?thesis
    by (auto simp: pnacl_eh_sjlj_Unwind_RaiseException_def)
qed

text \<open>
  C2. The claim fails on the code. The comparator recognises an object only at \<open>540\<close>
  and moves the pointer by \<open>8\<close> when it reports no match. The exception is of the first
  type and its object is at \<open>532\<close>; the stack is the list of the frames at \<open>10\<close>, \<open>20\<close>
  and \<open>30\<close>. Asked about this type and this pointer, wherever the pointer variable
  lives, the frame at \<open>10\<close> resolves to the cleanup clause \<open>0\<close>, the frame at \<open>20\<close>
  does not match and the frame at \<open>30\<close> resolves to \<open>0\<close>: no frame yields a
  non-cleanup match. Yet the raise does not return: it jumps to the landing pad of the
  frame at \<open>10\<close> and pops that frame. The comparator call that failed in the frame at
  \<open>10\<close> left \<open>540\<close> in the pointer, the probe is started with it, and with \<open>540\<close> the
  frame at \<open>20\<close> matches.
\<close>

theorem raise_commits_on_moved_pointer:
  "(\<forall>obj. does_frame_match (ex_rt (cc_object_at 540)) 100 obj 532 (ex_frame 1010 20 3)
            = Some (Some 0, 540, 1)) \<and>
   (\<forall>obj. does_frame_match (ex_rt (cc_object_at 540)) 100 obj 532 (ex_frame 1020 30 2)
            = Some (None, 540, 1)) \<and>
   (\<forall>obj. does_frame_match (ex_rt (cc_object_at 540)) 100 obj 532 (ex_frame 1030 0 1)
            = Some (Some 0, 532, 0)) \<and>
   frame_path (frames (ex_state 10)) (pnacl_eh_stack (ex_state 10)) [10, 20, 30] \<and>
   get_object_from_ue (ex_rt (cc_object_at 540)) (ex_state 10) 500 = Some 532 \<and>
   (\<exists>st' n. pnacl_eh_sjlj_Unwind_RaiseException (ex_rt (cc_object_at 540)) (ex_state 10) 500
               = Some (Landingpad 1010 1 st', n) \<and>
             pnacl_eh_stack st' = 20)"
  by (simp add: ex_defs run_defs pnacl_eh_sjlj_Unwind_RaiseException_def)

section \<open>The clause matcher\<close>

lemma does_clause_match_filter:
  "sint cid < 0 \<Longrightarrow>
   does_clause_match rt throw_type obj obj_val cid =
     (case exception_spec_can_catch rt throw_type obj cid of
        None \<Rightarrow> None
      | Some (r, k) \<Rightarrow> Some (r, obj_val, k))"
  by (auto simp: does_clause_match_def)

text \<open>
  C7. For the filter clause \<open>-1\<close>, which lists the first type: the exception is of the
  first type and its object is at \<open>532\<close>, the comparator recognises the object there,
  and the filter evaluator asked about the type and \<open>532\<close> answers that the
  specification is not violated. The clause matcher, whose pointer variable lives at
  \<open>9000\<close> and holds \<open>532\<close>, answers that it is violated: it hands the evaluator
  \<open>9000\<close>, the address of the variable, and not the pointer in it. The caller's
  pointer is still \<open>532\<close>.
\<close>

theorem clause_match_filter_gets_address:
  "exception_spec_can_catch (ex_rt cc_looking) 100 532 (- 1) = Some (False, 1) \<and>
   does_clause_match (ex_rt cc_looking) 100 9000 532 (- 1) = Some (True, 532, 1)"
  by (simp add: ex_defs exception_spec_can_catch_def does_clause_match_def)

text \<open>
  For a clause id above \<open>0\<close> whose entry of the type table is not null, the clause
  matcher asks the comparator once, on the caller's pointer itself: its answer is the
  comparator's, and the caller's pointer afterwards is the pointer the comparator left,
  whatever the answer.
\<close>

lemma does_clause_match_catch:
  assumes "0 < sint cid"
    and "table_at (pnacl_eh_type_table rt) (sint cid - 1) = Some t"
    and "t \<noteq> 0"
  shows "does_clause_match rt throw_type obj obj_val cid =
     Some (fst (can_catch rt t throw_type obj_val), snd (can_catch rt t throw_type obj_val), 1)"
  using assms by (auto simp: does_clause_match_def split: prod.splits)

text \<open>
  C8. The claim fails on the code. The comparator leaves the pointer alone on a match
  and moves it by \<open>8\<close> when it reports no match; the exception is of the third type and
  its object is at \<open>632\<close>. For the catch clause \<open>1\<close>, which declares the first type,
  the comparator reports no match and leaves \<open>640\<close>; the clause matcher reports no
  match and leaves \<open>640\<close>, not \<open>632\<close>, in the caller's pointer. The clause \<open>3\<close>, which
  catches everything, matches and adjusts nothing. So a frame whose clause list is the
  clause \<open>1\<close> followed by the clause \<open>3\<close> is entered for clause \<open>3\<close> with the
  adjusted pointer \<open>640\<close> in the header: the adjustment of the call that did not match.
\<close>

theorem clause_match_keeps_failed_adjustment:
  "can_catch (ex_rt cc_fail_moves) 100 300 632 = (False, 640) \<and>
   does_clause_match (ex_rt cc_fail_moves) 300 9000 632 1 = Some (False, 640, 1) \<and>
   does_clause_match (ex_rt cc_fail_moves) 300 9000 632 3 = Some (True, 632, 0) \<and>
   (\<exists>st' n. handle_exception (ex_rt cc_fail_moves) ex_catch_state 600 True
               = Some (Longjmp 1060 1 st', n) \<and>
             map_option handlerSwitchValue (exceptions st' 600) = Some 3 \<and>
             map_option adjustedPtr (exceptions st' 600) = Some 640)"
  by (simp add: ex_defs run_defs)

section \<open>The entry points\<close>

text \<open>
  C10. \<^verbatim>\<open>_Unwind_Resume_or_Rethrow\<close> is \<^verbatim>\<open>_Unwind_RaiseException\<close> on
  every header and every memory: it is \<open>handle_exception\<close> with
  \<^verbatim>\<open>check_for_catch\<close> set, so with the probe, and it returns
  \<^verbatim>\<open>_URC_END_OF_STACK\<close> when that returns.
\<close>

theorem Resume_or_Rethrow_is_RaiseException:
  "pnacl_eh_sjlj_Unwind_Resume_or_Rethrow rt st ue_header =
     pnacl_eh_sjlj_Unwind_RaiseException rt st ue_header \<and>
   pnacl_eh_sjlj_Unwind_Resume_or_Rethrow rt st ue_header =
     (case handle_exception rt st ue_header True of
        None \<Rightarrow> None
      | Some (Returned st', k) \<Rightarrow> Some (Return_Code URC_END_OF_STACK st', k)
      | Some (Longjmp jb v st', k) \<Rightarrow> Some (Landingpad jb v st', k))"
  by (simp add: pnacl_eh_sjlj_Unwind_Resume_or_Rethrow_def pnacl_eh_sjlj_Unwind_RaiseException_def)

lemma call_unexpected_never_returns:
  "pnacl_eh_sjlj_cxa_call_unexpected rt st ue_header \<noteq> Some (Returned_normally, k)"
  by (auto simp: pnacl_eh_sjlj_cxa_call_unexpected_def Let_def
           split: option.splits unexpected_result.splits if_splits)

text \<open>
  C9. \<^verbatim>\<open>__cxa_call_unexpected\<close> never returns normally, whatever it is given. When
  the handler throws, the filter id is the switch value the old header held before the
  handler ran, and the way out is decided in this order: the exception the handler
  threw is rethrown if the filter allows its type; otherwise
  \<^verbatim>\<open>std::bad_exception\<close> is thrown if the filter allows that; otherwise the
  terminate handler saved in the old header is called.
\<close>

theorem call_unexpected_order:
  assumes "exceptions st ue_header = Some old"
    and "std_unexpected rt (unexpectedHandler old) st = HandlerThrew st' new_ue"
    and "exceptions st' new_ue = Some new"
    and "get_object_from_ue rt st' new_ue = Some new_obj"
    and "exception_spec_can_catch rt (exceptionType new) new_obj (handlerSwitchValue old)
           = Some (violated, k)"
    and "exception_spec_can_catch rt (bad_exception_type rt) (bad_exception_obj rt)
           (handlerSwitchValue old) = Some (violated', k')"
  shows "(\<forall>rt0 st0 ue0 n.
            pnacl_eh_sjlj_cxa_call_unexpected rt0 st0 ue0 \<noteq> Some (Returned_normally, n)) \<and>
         (\<exists>n. pnacl_eh_sjlj_cxa_call_unexpected rt st ue_header =
            Some (if \<not> violated then Rethrow new_ue
                  else if \<not> violated' then Throw_bad_exception
                  else Terminate_with (terminateHandler old), n))"
  using assms call_unexpected_never_returns
  by (simp add: pnacl_eh_sjlj_cxa_call_unexpected_def get_exception_header_from_ue_def)

theorem call_unexpected_order_witness:
  "(\<forall>rt0 st0 ue0 n.
      pnacl_eh_sjlj_cxa_call_unexpected rt0 st0 ue0 \<noteq> Some (Returned_normally, n)) \<and>
   (\<exists>n. pnacl_eh_sjlj_cxa_call_unexpected (ex_rt cc_same) (ex_state 10) 700
           = Some (Throw_bad_exception, n))"
  using call_unexpected_order [of "ex_state 10" 700 "ex_exception 100 (- 3)" "ex_rt cc_same"
      "(ex_state 10)\<lparr>exceptions := (exceptions (ex_state 10))(700 \<mapsto> ex_exception 100 (- 1))\<rparr>"
      600 "ex_exception 300 0" 632 True 2 False 2]
  by (simp add: ex_defs get_object_from_ue_def exception_spec_can_catch_def)

section \<open>The filter evaluator\<close>

lemma table_at_Some: "table_at xs i = Some x \<Longrightarrow> xs ! nat i = x"
  by (auto simp: table_at_def split: if_splits)

lemma filter_scan_semantics:
  assumes "0 \<in> set fs"
    and "list_all (\<lambda>f. case table_at (pnacl_eh_type_table rt) (sint f - 1) of
                       None \<Rightarrow> False | Some t \<Rightarrow> t \<noteq> 0) (takeWhile (\<lambda>f. f \<noteq> 0) fs)"
  shows "(\<exists>pre t post.
            map (\<lambda>f. pnacl_eh_type_table rt ! nat (sint f - 1)) (takeWhile (\<lambda>f. f \<noteq> 0) fs)
              = pre @ t # post \<and>
            none_catches rt ty obj pre \<and>
            fst (can_catch rt t ty (obj_passed rt ty obj pre)) \<and>
            filter_scan rt ty obj fs = Some (False, Suc (length pre)))
       \<or> (none_catches rt ty obj
             (map (\<lambda>f. pnacl_eh_type_table rt ! nat (sint f - 1)) (takeWhile (\<lambda>f. f \<noteq> 0) fs)) \<and>
           filter_scan rt ty obj fs = Some (True, length (takeWhile (\<lambda>f. f \<noteq> 0) fs)))"
  using assms
proof (induction fs arbitrary: obj)
  case Nil
  then show ?case by simp
next
  case (Cons f fs)
  let ?ts = "\<lambda>fs. map (\<lambda>f. pnacl_eh_type_table rt ! nat (sint f - 1)) (takeWhile (\<lambda>f. f \<noteq> 0) fs)"
  show ?case
  proof (cases "f = 0")
    case True
    then show ?thesis by simp
  next
    case False
    with Cons.prems obtain t where t: "table_at (pnacl_eh_type_table rt) (sint f - 1) = Some t" "t \<noteq> 0"
      and rest: "0 \<in> set fs"
        "list_all (\<lambda>f. case table_at (pnacl_eh_type_table rt) (sint f - 1) of
                       None \<Rightarrow> False | Some t \<Rightarrow> t \<noteq> 0) (takeWhile (\<lambda>f. f \<noteq> 0) fs)"
      by (auto split: option.splits)
    from t(1) have tt: "pnacl_eh_type_table rt ! nat (sint f - 1) = t" by (rule table_at_Some)
    from False tt have ts: "?ts (f # fs) = t # ?ts fs" by simp
    obtain c q where cq: "can_catch rt t ty obj = (c, q)" by (cases "can_catch rt t ty obj")
    show ?thesis
    proof (cases c)
      case True
      with False t cq have "filter_scan rt ty obj (f # fs) = Some (False, Suc (length ([]::ptr list)))"
        by simp
      moreover have "?ts (f # fs) = [] @ t # ?ts fs" using ts by simp
      moreover have "none_catches rt ty obj []" by simp
      moreover from True cq have "fst (can_catch rt t ty (obj_passed rt ty obj []))" by simp
      ultimately show ?thesis by blast
    next
      case nc: False
      from Cons.IH [OF rest, of q] show ?thesis
      proof
        assume "\<exists>pre t post. ?ts fs = pre @ t # post \<and> none_catches rt ty q pre \<and>
            fst (can_catch rt t ty (obj_passed rt ty q pre)) \<and>
            filter_scan rt ty q fs = Some (False, Suc (length pre))"
        then obtain pre t' post where p: "?ts fs = pre @ t' # post" "none_catches rt ty q pre"
            "fst (can_catch rt t' ty (obj_passed rt ty q pre))"
            "filter_scan rt ty q fs = Some (False, Suc (length pre))"
          by blast
        from p(1) ts have "?ts (f # fs) = (t # pre) @ t' # post" by simp
        moreover from p(2) nc cq have "none_catches rt ty obj (t # pre)" by simp
        moreover from p(3) cq have "fst (can_catch rt t' ty (obj_passed rt ty obj (t # pre)))" by simp
        moreover from p(4) False t cq nc have
          "filter_scan rt ty obj (f # fs) = Some (False, Suc (length (t # pre)))" by simp
        ultimately show ?thesis by blast
      next
        assume a: "none_catches rt ty q (?ts fs) \<and>
           filter_scan rt ty q fs = Some (True, length (takeWhile (\<lambda>f. f \<noteq> 0) fs))"
        with nc cq ts have "none_catches rt ty obj (?ts (f # fs))" by simp
        moreover from a False t cq nc have
          "filter_scan rt ty obj (f # fs) = Some (True, length (takeWhile (\<lambda>f. f \<noteq> 0) (f # fs)))"
          by simp
        ultimately show ?thesis by blast
      qed
    qed
  qed
qed

text \<open>
  What the evaluator computes, for a well-formed filter id: it asks the comparator
  about the listed types in the order of the list, each on the pointer the calls
  before it left. Either some listed type, asked so, can catch; then the answer is
  \<^verbatim>\<open>false\<close>, after one call for each type up to that one. Or none can; then the
  answer is \<^verbatim>\<open>true\<close>, after one call for each listed type.
\<close>

lemma filter_evaluator_semantics:
  assumes "filter_wf rt filter_id"
  shows "(\<exists>pre t post.
            listed_types rt filter_id = pre @ t # post \<and>
            none_catches rt throw_type obj pre \<and>
            fst (can_catch rt t throw_type (obj_passed rt throw_type obj pre)) \<and>
            exception_spec_can_catch rt throw_type obj filter_id = Some (False, Suc (length pre)))
       \<or> (none_catches rt throw_type obj (listed_types rt filter_id) \<and>
           exception_spec_can_catch rt throw_type obj filter_id
             = Some (True, length (listed_types rt filter_id)))"
proof -
  from assms have e: "exception_spec_can_catch rt throw_type obj filter_id =
      filter_scan rt throw_type obj (drop (nat (- sint filter_id - 1)) (pnacl_eh_filter_table rt))"
    by (simp add: filter_wf_def exception_spec_can_catch_def)
  from assms have "0 \<in> set (drop (nat (- sint filter_id - 1)) (pnacl_eh_filter_table rt))"
    and "list_all (\<lambda>f. case table_at (pnacl_eh_type_table rt) (sint f - 1) of
                       None \<Rightarrow> False | Some t \<Rightarrow> t \<noteq> 0)
           (takeWhile (\<lambda>f. f \<noteq> 0) (drop (nat (- sint filter_id - 1)) (pnacl_eh_filter_table rt)))"
    by (simp_all add: filter_wf_def filter_list_def)
  from filter_scan_semantics [OF this, of throw_type obj] show ?thesis
    by (simp add: e listed_types_def filter_list_def)
qed

text \<open>
  With a comparator that leaves the pointer alone when it reports no match, every
  listed type is asked about the pointer the evaluator was given.
\<close>

lemma obj_passed_unchanged:
  assumes "\<And>t p. \<not> fst (can_catch rt t throw_type p) \<Longrightarrow> snd (can_catch rt t throw_type p) = p"
  shows "none_catches rt throw_type obj ts \<Longrightarrow> obj_passed rt throw_type obj ts = obj"
proof (induction ts arbitrary: obj)
  case Nil
  then show ?case by simp
next
  case (Cons t ts)
  then have "snd (can_catch rt t throw_type obj) = obj" by (simp add: assms)
  with Cons show ?case by simp
qed

lemma none_catches_plain:
  assumes "\<And>t p. \<not> fst (can_catch rt t throw_type p) \<Longrightarrow> snd (can_catch rt t throw_type p) = p"
  shows "none_catches rt throw_type obj ts \<longleftrightarrow> (\<forall>t\<in>set ts. \<not> fst (can_catch rt t throw_type obj))"
proof (induction ts)
  case Nil
  then show ?case by simp
next
  case (Cons t ts)
  show ?case
  proof (cases "fst (can_catch rt t throw_type obj)")
    case True
    then show ?thesis by simp
  next
    case False
    then have "snd (can_catch rt t throw_type obj) = obj" by (rule assms)
    with False Cons show ?thesis by simp
  qed
qed

text \<open>
  So for such a comparator the answer is \<^verbatim>\<open>true\<close> exactly when no listed type can
  catch the thrown type with the pointer the evaluator was given.
\<close>

lemma filter_evaluator_plain:
  assumes wf: "filter_wf rt filter_id"
    and cc: "\<And>t p. \<not> fst (can_catch rt t throw_type p) \<Longrightarrow> snd (can_catch rt t throw_type p) = p"
  shows "map_option fst (exception_spec_can_catch rt throw_type obj filter_id) =
           Some (\<forall>t\<in>set (listed_types rt filter_id). \<not> fst (can_catch rt t throw_type obj))"
proof -
  from wf have e: "exception_spec_can_catch rt throw_type obj filter_id =
      filter_scan rt throw_type obj (drop (nat (- sint filter_id - 1)) (pnacl_eh_filter_table rt))"
    by (simp add: filter_wf_def exception_spec_can_catch_def)
  from wf have "0 \<in> set (drop (nat (- sint filter_id - 1)) (pnacl_eh_filter_table rt))"
    and "list_all (\<lambda>f. case table_at (pnacl_eh_type_table rt) (sint f - 1) of
                       None \<Rightarrow> False | Some t \<Rightarrow> t \<noteq> 0)
           (takeWhile (\<lambda>f. f \<noteq> 0) (drop (nat (- sint filter_id - 1)) (pnacl_eh_filter_table rt)))"
    by (simp_all add: filter_wf_def filter_list_def)
  from filter_scan_semantics [OF this, of throw_type obj]
  have "(\<exists>pre t post.
            listed_types rt filter_id = pre @ t # post \<and>
            none_catches rt throw_type obj pre \<and>
            fst (can_catch rt t throw_type (obj_passed rt throw_type obj pre)) \<and>
            exception_spec_can_catch rt throw_type obj filter_id = Some (False, Suc (length pre)))
       \<or> (none_catches rt throw_type obj (listed_types rt filter_id) \<and>
           exception_spec_can_catch rt throw_type obj filter_id
             = Some (True, length (listed_types rt filter_id)))"
    by (simp add: e listed_types_def filter_list_def)
  then show ?thesis
  proof
    assume "\<exists>pre t post.
            listed_types rt filter_id = pre @ t # post \<and>
            none_catches rt throw_type obj pre \<and>
            fst (can_catch rt t throw_type (obj_passed rt throw_type obj pre)) \<and>
            exception_spec_can_catch rt throw_type obj filter_id = Some (False, Suc (length pre))"
    then obtain pre t post where
      p: "listed_types rt filter_id = pre @ t # post" "none_catches rt throw_type obj pre"
         "fst (can_catch rt t throw_type (obj_passed rt throw_type obj pre))"
         "exception_spec_can_catch rt throw_type obj filter_id = Some (False, Suc (length pre))"
      by blast
    from cc p(2) have "obj_passed rt throw_type obj pre = obj"
      by (rule obj_passed_unchanged)
    with p(3) have "fst (can_catch rt t throw_type obj)" by simp
    with p(1) have "\<not> (\<forall>t\<in>set (listed_types rt filter_id). \<not> fst (can_catch rt t throw_type obj))"
      by auto
    with p(4) show ?thesis by simp
  next
    assume a: "none_catches rt throw_type obj (listed_types rt filter_id) \<and>
           exception_spec_can_catch rt throw_type obj filter_id
             = Some (True, length (listed_types rt filter_id))"
    then have "\<forall>t\<in>set (listed_types rt filter_id). \<not> fst (can_catch rt t throw_type obj)"
      by (simp add: none_catches_plain [OF cc])
    with a show ?thesis by simp
  qed
qed

text \<open>
  C5. The claim fails on the code, both ways. Filter \<open>-3\<close> lists the first and the
  second type; the exception is of the second type and its object is at \<open>532\<close>; the
  comparator moves the pointer by \<open>8\<close> when it reports no match. When it recognises
  the object at \<open>532\<close>, the second listed type can catch the thrown value, yet the
  evaluator answers \<^verbatim>\<open>true\<close>. When it recognises an object only at \<open>540\<close>, no
  listed type can catch the thrown value, yet the evaluator answers \<^verbatim>\<open>false\<close>. In
  both cases the second listed type is asked about \<open>540\<close>, the pointer the call for the
  first listed type left, and not about \<open>532\<close>.
\<close>

theorem filter_evaluator_threads_pointer:
  "can_catch (ex_rt (cc_object_at 532)) 200 200 532 = (True, 532) \<and>
   exception_spec_can_catch (ex_rt (cc_object_at 532)) 200 532 (- 3) = Some (True, 2) \<and>
   can_catch (ex_rt (cc_object_at 540)) 100 200 532 = (False, 540) \<and>
   can_catch (ex_rt (cc_object_at 540)) 200 200 532 = (False, 540) \<and>
   exception_spec_can_catch (ex_rt (cc_object_at 540)) 200 532 (- 3) = Some (False, 2)"
  by (simp add: ex_defs run_defs)

section \<open>The walk of a clause list\<close>

lemma clause_list_walk_first:
  assumes "clause_chain (pnacl_eh_action_table rt) cl ns"
    and "clauses_defined rt ty obj p (map clause_id ns)"
  shows "(\<exists>pre n post q k k'.
            ns = pre @ n # post \<and>
            no_clause_matches rt ty obj p (map clause_id pre) \<and>
            does_clause_match rt ty obj (obj_after rt ty obj p (map clause_id pre)) (clause_id n)
              = Some (True, q, k) \<and>
            clause_list_walk rt ty obj p cl = Some (Some (clause_id n), q, k'))
       \<or> (no_clause_matches rt ty obj p (map clause_id ns) \<and>
           (\<exists>k'. clause_list_walk rt ty obj p cl
                    = Some (None, obj_after rt ty obj p (map clause_id ns), k')))"
  using assms
proof (induction ns arbitrary: cl p)
  case Nil
  then show ?case by (simp add: clause_list_walk.simps)
next
  case (Cons n ns)
  from Cons.prems(1) have cl: "cl \<noteq> 0" "table_at (pnacl_eh_action_table rt) (sint cl - 1) = Some n"
    and chain: "clause_chain (pnacl_eh_action_table rt) (next_clause_list_id n) ns"
    by simp_all
  from Cons.prems(2) obtain m q k where
    dm: "does_clause_match rt ty obj p (clause_id n) = Some (m, q, k)"
    by (auto split: option.splits)
  show ?case
  proof (cases m)
    case True
    with cl dm have "clause_list_walk rt ty obj p cl = Some (Some (clause_id n), q, k)"
      by (subst clause_list_walk.simps) simp
    moreover have "n # ns = [] @ n # ns" by simp
    moreover have "no_clause_matches rt ty obj p (map clause_id [])" by simp
    moreover from True dm have
      "does_clause_match rt ty obj (obj_after rt ty obj p (map clause_id [])) (clause_id n)
         = Some (True, q, k)" by simp
    ultimately show ?thesis by blast
  next
    case False
    with Cons.prems(2) dm have "clauses_defined rt ty obj q (map clause_id ns)" by simp
    from Cons.IH [OF chain this] show ?thesis
    proof
      assume "\<exists>pre n' post q' k k'.
            ns = pre @ n' # post \<and>
            no_clause_matches rt ty obj q (map clause_id pre) \<and>
            does_clause_match rt ty obj (obj_after rt ty obj q (map clause_id pre)) (clause_id n')
              = Some (True, q', k) \<and>
            clause_list_walk rt ty obj q (next_clause_list_id n) = Some (Some (clause_id n'), q', k')"
      then obtain pre n' post q' k1 k' where
        i: "ns = pre @ n' # post" "no_clause_matches rt ty obj q (map clause_id pre)"
           "does_clause_match rt ty obj (obj_after rt ty obj q (map clause_id pre)) (clause_id n')
              = Some (True, q', k1)"
           "clause_list_walk rt ty obj q (next_clause_list_id n) = Some (Some (clause_id n'), q', k')"
        by blast
      from i(1) have "n # ns = (n # pre) @ n' # post" by simp
      moreover from i(2) False dm have "no_clause_matches rt ty obj p (map clause_id (n # pre))"
        by simp
      moreover from i(3) dm have
        "does_clause_match rt ty obj (obj_after rt ty obj p (map clause_id (n # pre))) (clause_id n')
              = Some (True, q', k1)" by simp
      moreover from i(4) cl dm False have
        "clause_list_walk rt ty obj p cl = Some (Some (clause_id n'), q', k + k')"
        by (subst clause_list_walk.simps) simp
      ultimately show ?thesis by blast
    next
      assume "no_clause_matches rt ty obj q (map clause_id ns) \<and>
           (\<exists>k'. clause_list_walk rt ty obj q (next_clause_list_id n)
                    = Some (None, obj_after rt ty obj q (map clause_id ns), k'))"
      then obtain k' where
        i: "no_clause_matches rt ty obj q (map clause_id ns)"
           "clause_list_walk rt ty obj q (next_clause_list_id n)
                    = Some (None, obj_after rt ty obj q (map clause_id ns), k')"
        by blast
      from i(1) False dm have "no_clause_matches rt ty obj p (map clause_id (n # ns))" by simp
      moreover from i(2) cl dm False have
        "clause_list_walk rt ty obj p cl
           = Some (None, obj_after rt ty obj p (map clause_id (n # ns)), k + k')"
        by (subst clause_list_walk.simps) simp
      ultimately show ?thesis by blast
    qed
  qed
qed

text \<open>
  C4. Let \<open>ns\<close> be the nodes of the frame's clause list in the order of the links,
  from \<^verbatim>\<open>clause_list_id\<close> to the link \<open>0\<close>, and let the clause matcher have an
  answer for every clause the walk reaches. Then either \<open>ns\<close> splits into nodes
  that are all reported not to match, a node \<open>n\<close> that is reported to match and the
  nodes after it, and \<open>does_frame_match\<close> returns the clause id of \<open>n\<close> with the
  pointer that match left; or no node is reported to match and \<open>does_frame_match\<close>
  returns \<^verbatim>\<open>false\<close>. Each clause is tried on the pointer the clauses before it
  left. The order matters: for an exception of the first type, the list that catches
  everything and then the first type yields clause \<open>3\<close>, and the list of the same two
  clauses in the other order yields clause \<open>1\<close>.
\<close>

theorem frame_match_first_in_list:
  assumes "clause_chain (pnacl_eh_action_table rt) (clause_list_id frame) ns"
    and "clauses_defined rt throw_type obj obj_val (map clause_id ns)"
  shows "((\<exists>pre n post q k k'.
            ns = pre @ n # post \<and>
            no_clause_matches rt throw_type obj obj_val (map clause_id pre) \<and>
            does_clause_match rt throw_type obj
                (obj_after rt throw_type obj obj_val (map clause_id pre)) (clause_id n)
              = Some (True, q, k) \<and>
            does_frame_match rt throw_type obj obj_val frame = Some (Some (clause_id n), q, k'))
       \<or> (no_clause_matches rt throw_type obj obj_val (map clause_id ns) \<and>
           (\<exists>k'. does_frame_match rt throw_type obj obj_val frame
                    = Some (None, obj_after rt throw_type obj obj_val (map clause_id ns), k'))))
      \<and> does_frame_match (ex_rt cc_same) 100 9000 532 (ex_frame 0 0 4) = Some (Some 3, 532, 0)
      \<and> does_frame_match (ex_rt cc_same) 100 9000 532 (ex_frame 0 0 5) = Some (Some 1, 532, 1)"
proof -
  have "does_frame_match (ex_rt cc_same) 100 9000 532 (ex_frame 0 0 4) = Some (Some 3, 532, 0)"
    "does_frame_match (ex_rt cc_same) 100 9000 532 (ex_frame 0 0 5) = Some (Some 1, 532, 1)"
    by (simp_all add: does_frame_match_def clause_list_walk.simps does_clause_match_def
          ex_rt_def ex_frame_def cc_same_def table_at_def)
  with clause_list_walk_first [OF assms] show ?thesis
    unfolding does_frame_match_def by blast
qed

theorem frame_match_first_in_list_witness:
  "does_frame_match (ex_rt cc_same) 200 9000 532 (ex_frame 0 0 5) = Some (Some 3, 532, 1)
   \<and> does_frame_match (ex_rt cc_same) 100 9000 532 (ex_frame 0 0 4) = Some (Some 3, 532, 0)
   \<and> does_frame_match (ex_rt cc_same) 100 9000 532 (ex_frame 0 0 5) = Some (Some 1, 532, 1)"
proof -
  let ?ns = "[\<lparr>clause_id = 1, next_clause_list_id = 6\<rparr>, \<lparr>clause_id = 3, next_clause_list_id = 0\<rparr>]"
  have c: "clause_chain (pnacl_eh_action_table (ex_rt cc_same)) (clause_list_id (ex_frame 0 0 5)) ?ns"
    by (simp add: ex_rt_def ex_frame_def table_at_def)
  have d: "clauses_defined (ex_rt cc_same) 200 9000 532 (map clause_id ?ns)"
    by (simp add: does_clause_match_def ex_rt_def cc_same_def table_at_def)
  have e: "does_frame_match (ex_rt cc_same) 200 9000 532 (ex_frame 0 0 5) = Some (Some 3, 532, 1)"
    by (simp add: does_frame_match_def clause_list_walk.simps does_clause_match_def
          ex_rt_def ex_frame_def cc_same_def table_at_def)
  from frame_match_first_in_list [OF c d] e show ?thesis by simp
qed

section \<open>The probe\<close>

lemma handle_exception_unfold:
  assumes "exceptions st ue = Some xh" and "get_object_from_ue rt st ue = Some obj0"
    and "find_match rt (frames st) (exceptionType xh) (handle_exception_obj rt) obj0
           (pnacl_eh_stack st) = Some (r, obj_val, k)"
  shows "handle_exception rt st ue chk =
     (case r of
        None \<Rightarrow> Some (Returned st, k)
      | Some (frame, cid) \<Rightarrow>
          (case frames st frame of
             None \<Rightarrow> None
           | Some fr \<Rightarrow>
               if chk \<and> cid = 0 then
                 (case is_exception_caught rt (frames st) (exceptionType xh) obj_val
                         (frame_next fr) of
                    None \<Rightarrow> None
                  | Some (caught, k') \<Rightarrow>
                      if caught
                      then map_option (\<lambda>e. (e, k + k'))
                             (enter_landingpad st ue xh frame fr obj_val cid)
                      else Some (Returned st, k + k'))
               else map_option (\<lambda>e. (e, k))
                      (enter_landingpad st ue xh frame fr obj_val cid)))"
  using assms
  by (auto simp: handle_exception_def get_exception_header_from_ue_def
           split: option.splits)

text \<open>
  C3, as amended. On a raise the search runs first, from the top frame. When it finds
  nothing the raise returns. When the first frame it finds resolves to a clause id
  other than \<open>0\<close>, the raise commits and the probe is not run: the comparator calls
  are the search's. Only when that frame resolves to the cleanup clause \<open>0\<close> is the
  probe run, before the commit, and then from the frame after the matched one and on
  the pointer the search left; it returns an answer and a number of calls and nothing
  else, and the raise commits if the answer is yes and returns with the memory
  unchanged if it is no.
\<close>

theorem raise_probes_behind_cleanup:
  assumes "exceptions st ue = Some xh" and "get_object_from_ue rt st ue = Some obj0"
    and "find_match rt (frames st) (exceptionType xh) (handle_exception_obj rt) obj0
           (pnacl_eh_stack st) = Some (r, obj_val, k)"
  shows "handle_exception rt st ue True =
     (case r of
        None \<Rightarrow> Some (Returned st, k)
      | Some (frame, cid) \<Rightarrow>
          (case frames st frame of
             None \<Rightarrow> None
           | Some fr \<Rightarrow>
               if cid = 0 then
                 (case is_exception_caught rt (frames st) (exceptionType xh) obj_val
                         (frame_next fr) of
                    None \<Rightarrow> None
                  | Some (caught, k') \<Rightarrow>
                      if caught
                      then map_option (\<lambda>e. (e, k + k'))
                             (enter_landingpad st ue xh frame fr obj_val cid)
                      else Some (Returned st, k + k'))
               else map_option (\<lambda>e. (e, k))
                      (enter_landingpad st ue xh frame fr obj_val cid)))"
  by (simp add: handle_exception_unfold [OF assms] split: option.splits prod.splits)

text \<open>
  C3, as stated, fails. A raise of the first type on the stack from \<open>10\<close> (catch the
  second type, then cleanup; catch the first type; cleanup) calls the comparator twice,
  where the probe against the full stack followed by the search calls it three times:
  the frame at \<open>10\<close> is walked once, by the search, and the probe starts at \<open>20\<close>. On
  the stack from \<open>20\<close> the first frame resolves to a catch clause and the probe is not
  run at all: one call, where probe and search make two.
\<close>

theorem raise_probe_not_from_top:
  "handle_exception (ex_rt cc_same) (ex_state 10) 500 True
     \<noteq> raise_probe_first (ex_rt cc_same) (ex_state 10) 500 \<and>
   map_option snd (handle_exception (ex_rt cc_same) (ex_state 10) 500 True) = Some 2 \<and>
   map_option snd (raise_probe_first (ex_rt cc_same) (ex_state 10) 500) = Some 3 \<and>
   map_option snd (handle_exception (ex_rt cc_same) (ex_state 20) 500 True) = Some 1 \<and>
   map_option snd (raise_probe_first (ex_rt cc_same) (ex_state 20) 500) = Some 2"
  by (simp add: ex_defs run_defs raise_probe_first_def)

theorem raise_probes_behind_cleanup_witness:
  "\<exists>st'. handle_exception (ex_rt cc_same) (ex_state 10) 500 True = Some (Longjmp 1010 1 st', 2)"
proof -
  have 1: "exceptions (ex_state 10) 500 = Some (ex_exception 100 0)"
    by (simp add: ex_defs)
  have 2: "get_object_from_ue (ex_rt cc_same) (ex_state 10) 500 = Some 532"
    by (simp add: ex_defs run_defs)
  have 3: "find_match (ex_rt cc_same) (frames (ex_state 10)) (exceptionType (ex_exception 100 0))
          (handle_exception_obj (ex_rt cc_same)) 532 (pnacl_eh_stack (ex_state 10))
        = Some (Some (10, 0), 532, 1)"
    by (simp add: ex_defs run_defs)
  have 4: "is_exception_caught (ex_rt cc_same) (frames (ex_state 10)) 100 532 20 = Some (True, 1)"
    by (simp add: ex_defs run_defs)
  from raise_probes_behind_cleanup [OF 1 2 3] 4 show ?thesis
    by (simp add: ex_defs enter_landingpad_def)
qed

text \<open>
  What the probe of the full stack would answer can be read off the search: nothing
  found, no; a frame found with a clause id other than \<open>0\<close>, yes; a frame found with
  clause id \<open>0\<close>, the answer of the probe from the frame after it. This needs the
  stack to be a list and the walk of a frame's clause list not to depend on where the
  pointer variable lives (it does only through the filter clauses, which are handed
  that address).
\<close>

lemma fst_bind_count:
  "map_option fst (Option.bind x (\<lambda>(b, k'). Some (b, k + k'))) = map_option fst x"
  by (cases x) auto

lemma probe_follows_search:
  assumes ins: "\<And>p fr. does_frame_match rt ty (is_exception_caught_obj rt) p fr
                 = does_frame_match rt ty (handle_exception_obj rt) p fr"
    and path: "frame_path fs a as"
  shows "map_option fst (is_exception_caught rt fs ty p a) =
     (case find_match rt fs ty (handle_exception_obj rt) p a of
        None \<Rightarrow> None
      | Some (None, q, k) \<Rightarrow> Some False
      | Some (Some (f, c), q, k) \<Rightarrow>
          if c \<noteq> 0 then Some True
          else (case fs f of
                  None \<Rightarrow> None
                | Some fr \<Rightarrow> map_option fst (is_exception_caught rt fs ty q (frame_next fr))))"
  using path
proof (induction as arbitrary: a p)
  case Nil
  then show ?case by (simp add: is_exception_caught.simps find_match.simps)
next
  case (Cons b bs)
  from Cons.prems obtain fr where fr: "a \<noteq> 0" "fs a = Some fr"
    "frame_path fs (frame_next fr) bs"
    by (auto split: option.splits)
  show ?case
  proof (cases "does_frame_match rt ty (handle_exception_obj rt) p fr")
    case None
    with fr ins show ?thesis
      by (subst is_exception_caught.simps, subst find_match.simps) simp
  next
    case (Some x)
    then obtain r q k where
      m: "does_frame_match rt ty (handle_exception_obj rt) p fr = Some (r, q, k)"
      by (cases x) auto
    show ?thesis
    proof (cases r)
      case None
      note ih = Cons.IH [OF fr(3), of q]
      from fr m None ins have
        l: "map_option fst (is_exception_caught rt fs ty p a)
              = map_option fst (is_exception_caught rt fs ty q (frame_next fr))"
        by (subst is_exception_caught.simps) (simp add: fst_bind_count)
      from fr m None have
        r: "find_match rt fs ty (handle_exception_obj rt) p a
              = Option.bind (find_match rt fs ty (handle_exception_obj rt) q (frame_next fr))
                  (\<lambda>(r, q, k'). Some (r, q, k + k'))"
        by (subst find_match.simps) simp
      show ?thesis
        unfolding l r ih
        by (cases "find_match rt fs ty (handle_exception_obj rt) q (frame_next fr)")
           (auto split: option.splits)
    next
      case (Some c)
      with fr m ins show ?thesis
        by (subst is_exception_caught.simps, subst find_match.simps) (simp add: fst_bind_count)
    qed
  qed
qed

text \<open>
  So, under the same two conditions, a raise ends as the probe of the full stack
  followed by the search and the commit would end: the same return or the same jump,
  with the same memory. The two differ in the comparator calls they make.
\<close>

lemma raise_as_if_probe_first:
  assumes ins: "\<And>ty p fr. does_frame_match rt ty (is_exception_caught_obj rt) p fr
                 = does_frame_match rt ty (handle_exception_obj rt) p fr"
    and path: "frame_path (frames st) (pnacl_eh_stack st) as"
  shows "map_option fst (handle_exception rt st ue True) = map_option fst (raise_probe_first rt st ue)"
proof (cases "exceptions st ue")
  case None
  then show ?thesis
    by (simp add: handle_exception_def raise_probe_first_def get_exception_header_from_ue_def)
next
  case (Some xh)
  show ?thesis
  proof (cases "get_object_from_ue rt st ue")
    case None
    with Some show ?thesis
      by (simp add: handle_exception_def raise_probe_first_def get_exception_header_from_ue_def)
  next
    case o: (Some obj0)
    note pf = probe_follows_search [OF ins path, of "exceptionType xh" obj0]
    show ?thesis
    proof (cases "find_match rt (frames st) (exceptionType xh) (handle_exception_obj rt) obj0
                    (pnacl_eh_stack st)")
      case None
      with pf Some o show ?thesis
        by (simp add: handle_exception_def raise_probe_first_def get_exception_header_from_ue_def)
    next
      case fm: (Some x)
      then obtain r q k where
        fm': "find_match rt (frames st) (exceptionType xh) (handle_exception_obj rt) obj0
                    (pnacl_eh_stack st) = Some (r, q, k)"
        by (cases x) auto
      from pf fm' Some o show ?thesis
        by (simp add: handle_exception_unfold [OF Some o fm'] raise_probe_first_def
              get_exception_header_from_ue_def)
           (auto split: option.splits if_splits simp: map_option_case)
    qed
  qed
qed

section \<open>Unwinding through cleanups\<close>

lemma does_frame_match_cleanup:
  "cleanup_only rt fr \<Longrightarrow> does_frame_match rt ty obj p fr = Some (Some 0, p, 0)"
  unfolding does_frame_match_def cleanup_only_def
  by (subst clause_list_walk.simps) (auto simp: does_clause_match_def split: option.splits)

lemma find_match_cleanup:
  "a \<noteq> 0 \<Longrightarrow> fs a = Some fr \<Longrightarrow> cleanup_only rt fr \<Longrightarrow>
   find_match rt fs ty obj p a = Some (Some (a, 0), p, 0)"
  by (subst find_match.simps) (simp add: does_frame_match_cleanup)

lemma find_match_handler:
  "a \<noteq> 0 \<Longrightarrow> fs a = Some fr \<Longrightarrow> does_frame_match rt ty obj p fr = Some (Some c, q, k) \<Longrightarrow>
   find_match rt fs ty obj p a = Some (Some (a, c), q, k)"
  by (subst find_match.simps) simp

lemma probe_through_cleanups:
  assumes "frame_path fs a (cs @ h # rest)"
    and "list_all (\<lambda>b. case fs b of None \<Rightarrow> False | Some fr \<Rightarrow> cleanup_only rt fr) cs"
    and "fs h = Some frh"
    and "does_frame_match rt ty (is_exception_caught_obj rt) p frh = Some (Some c, q, k)"
    and "c \<noteq> 0"
  shows "is_exception_caught rt fs ty p a = Some (True, k)"
  using assms(1,2)
proof (induction cs arbitrary: a)
  case Nil
  with assms(3,4,5) show ?case
    by (subst is_exception_caught.simps) auto
next
  case (Cons b cs)
  from Cons.prems obtain fr where fr: "a \<noteq> 0" "fs a = Some fr" "cleanup_only rt fr"
    "frame_path fs (frame_next fr) (cs @ h # rest)"
    and rest: "list_all (\<lambda>b. case fs b of None \<Rightarrow> False | Some fr \<Rightarrow> cleanup_only rt fr) cs"
    by (auto split: option.splits)
  from Cons.IH [OF fr(4) rest] fr(1,2,3) show ?case
    by (subst is_exception_caught.simps) (simp add: does_frame_match_cleanup)
qed

lemma get_object_from_ue_update:
  assumes "exceptions st ue = Some xh"
    and "exceptions st' = (exceptions st)(ue \<mapsto> xh\<lparr>adjustedPtr := p, handlerSwitchValue := c\<rparr>)"
  shows "get_object_from_ue rt st' ue = get_object_from_ue rt st ue"
  using assms by (simp add: get_object_from_ue_def)

lemma handle_exception_at_cleanup:
  assumes "cleanups_above rt st ue ty obj0 (a # cs) h frh"
    and "does_frame_match rt ty (is_exception_caught_obj rt) obj0 frh = Some (Some c', q', kp)"
    and "c' \<noteq> 0"
  shows "\<exists>jb st'. handle_exception rt st ue chk = Some (Longjmp jb 1 st', if chk then kp else 0) \<and>
           cleanups_above rt st' ue ty obj0 cs h frh \<and>
           map_option handlerSwitchValue (exceptions st' ue) = Some 0"
proof -
  from assms(1) obtain rest xh fr where
    p: "frame_path (frames st) (pnacl_eh_stack st) ((a # cs) @ h # rest)"
    and cl: "list_all (\<lambda>b. case frames st b of None \<Rightarrow> False | Some fr \<Rightarrow> cleanup_only rt fr) cs"
    and a: "frames st a = Some fr" "cleanup_only rt fr"
    and h: "frames st h = Some frh"
    and xh: "exceptions st ue = Some xh" "exceptionType xh = ty"
    and o: "get_object_from_ue rt st ue = Some obj0"
    by (auto simp: cleanups_above_def split: option.splits)
  from p a(1) have top: "pnacl_eh_stack st = a" "a \<noteq> 0"
    and p': "frame_path (frames st) (frame_next fr) (cs @ h # rest)"
    by auto
  from a(2) obtain jb where jb: "storage fr = Jmpbuf jb"
    by (auto simp: cleanup_only_def split: frame_storage.splits)
  define st' where "st' = \<lparr>pnacl_eh_stack = frame_next fr,
        frames = (frames st)(a \<mapsto> fr\<lparr>storage :=
                    Result \<lparr>exception_obj = ue, matched_clause_id = 0\<rparr>\<rparr>),
        exceptions = (exceptions st)
          (ue \<mapsto> xh\<lparr>adjustedPtr := obj0, handlerSwitchValue := 0\<rparr>)\<rparr>"
  from top a have fm: "find_match rt (frames st) (exceptionType xh) (handle_exception_obj rt) obj0
           (pnacl_eh_stack st) = Some (Some (a, 0), obj0, 0)"
    by (simp add: find_match_cleanup)
  have e: "enter_landingpad st ue xh a fr obj0 0 = Some (Longjmp jb 1 st')"
    by (simp add: enter_landingpad_def jb st'_def)
  from probe_through_cleanups [OF p' cl h] assms(2,3) xh(2) have
    pr: "is_exception_caught rt (frames st) (exceptionType xh) obj0 (frame_next fr) = Some (True, kp)"
    by simp
  have r: "handle_exception rt st ue chk = Some (Longjmp jb 1 st', if chk then kp else 0)"
    by (simp add: handle_exception_unfold [OF xh(1) o fm] a(1) e pr)
  from a(1) p' have nb: "a \<notin> set (cs @ h # rest)" by (rule frame_path_not_behind)
  with p' have "frame_path (frames st') (pnacl_eh_stack st') (cs @ h # rest)"
    by (simp add: st'_def frame_path_update)
  moreover from nb cl have
    "list_all (\<lambda>b. case frames st' b of None \<Rightarrow> False | Some fr \<Rightarrow> cleanup_only rt fr) cs"
    by (auto simp: st'_def list_all_iff)
  moreover from nb h have "frames st' h = Some frh" by (auto simp: st'_def)
  moreover from xh have
    "case exceptions st' ue of None \<Rightarrow> False | Some xh \<Rightarrow> exceptionType xh = ty"
    by (simp add: st'_def)
  moreover have "get_object_from_ue rt st' ue = get_object_from_ue rt st ue"
    by (rule get_object_from_ue_update [OF xh(1)]) (simp add: st'_def)
  with o have "get_object_from_ue rt st' ue = Some obj0" by simp
  ultimately have "cleanups_above rt st' ue ty obj0 cs h frh"
    unfolding cleanups_above_def by blast
  moreover have "map_option handlerSwitchValue (exceptions st' ue) = Some 0"
    by (simp add: st'_def)
  ultimately show ?thesis using r by blast
qed

lemma resume_at_handler:
  assumes "cleanups_above rt st ue ty obj0 [] h frh"
    and "storage frh = Jmpbuf jbh"
    and "does_frame_match rt ty (handle_exception_obj rt) obj0 frh = Some (Some c, q, kh)"
    and "c \<noteq> 0"
  shows "\<exists>st'. handle_exception rt st ue chk = Some (Longjmp jbh 1 st', kh) \<and>
           pnacl_eh_stack st' = frame_next frh \<and>
           map_option handlerSwitchValue (exceptions st' ue) = Some c \<and>
           map_option adjustedPtr (exceptions st' ue) = Some q"
proof -
  from assms(1) obtain rest xh where
    p: "frame_path (frames st) (pnacl_eh_stack st) (h # rest)"
    and h: "frames st h = Some frh"
    and xh: "exceptions st ue = Some xh" "exceptionType xh = ty"
    and o: "get_object_from_ue rt st ue = Some obj0"
    by (auto simp: cleanups_above_def split: option.splits)
  from p have top: "pnacl_eh_stack st = h" "h \<noteq> 0" by auto
  define st' where "st' = \<lparr>pnacl_eh_stack = frame_next frh,
        frames = (frames st)(h \<mapsto> frh\<lparr>storage :=
                    Result \<lparr>exception_obj = ue, matched_clause_id = c\<rparr>\<rparr>),
        exceptions = (exceptions st)
          (ue \<mapsto> xh\<lparr>adjustedPtr := q, handlerSwitchValue := c\<rparr>)\<rparr>"
  from top h assms(3) xh(2) have
    fm: "find_match rt (frames st) (exceptionType xh) (handle_exception_obj rt) obj0
           (pnacl_eh_stack st) = Some (Some (h, c), q, kh)"
    by (simp add: find_match_handler)
  have e: "enter_landingpad st ue xh h frh q c = Some (Longjmp jbh 1 st')"
    by (simp add: enter_landingpad_def assms(2) st'_def)
  have "handle_exception rt st ue chk = Some (Longjmp jbh 1 st', kh)"
    by (simp add: handle_exception_unfold [OF xh(1) o fm] h e assms(4))
  moreover have "pnacl_eh_stack st' = frame_next frh"
    "map_option handlerSwitchValue (exceptions st' ue) = Some c"
    "map_option adjustedPtr (exceptions st' ue) = Some q"
    by (simp_all add: st'_def)
  ultimately show ?thesis by blast
qed

lemma resume_cleanups_scenario:
  assumes "cleanups_above rt st ue ty obj0 cs h frh"
    and "map_option handlerSwitchValue (exceptions st ue) = Some 0"
    and "storage frh = Jmpbuf jbh"
    and "does_frame_match rt ty (handle_exception_obj rt) obj0 frh = Some (Some c, q, kh)"
    and "c \<noteq> 0"
    and "does_frame_match rt ty (is_exception_caught_obj rt) obj0 frh = Some (Some c', q', kp)"
    and "c' \<noteq> 0"
  shows "\<exists>st'. resume_cleanups rt ue (Suc (length cs)) (Some (Landingpad jb v st, k0))
             = Some (Landingpad jbh 1 st', k0 + kh) \<and>
           pnacl_eh_stack st' = frame_next frh \<and>
           map_option handlerSwitchValue (exceptions st' ue) = Some c \<and>
           map_option adjustedPtr (exceptions st' ue) = Some q"
  using assms(1,2)
proof (induction cs arbitrary: st jb v k0)
  case Nil
  from resume_at_handler [where chk = False, OF Nil(1) assms(3,4,5)] obtain st' where
    s: "handle_exception rt st ue False = Some (Longjmp jbh 1 st', kh)"
       "pnacl_eh_stack st' = frame_next frh"
       "map_option handlerSwitchValue (exceptions st' ue) = Some c"
       "map_option adjustedPtr (exceptions st' ue) = Some q"
    by blast
  from s(1) have "pnacl_eh_resume rt st ue = Some (Landingpad jbh 1 st', kh)"
    by (simp add: pnacl_eh_resume_def)
  with Nil(2) have "resume_cleanups rt ue (Suc (length ([]::ptr list))) (Some (Landingpad jb v st, k0))
             = Some (Landingpad jbh 1 st', k0 + kh)"
    by (auto split: option.splits)
  with s show ?case by blast
next
  case (Cons a cs)
  from handle_exception_at_cleanup [where chk = False, OF Cons.prems(1) assms(6,7)] obtain jb1 st1 where
    s0: "handle_exception rt st ue False = Some (Longjmp jb1 1 st1, 0)"
    and s': "cleanups_above rt st1 ue ty obj0 cs h frh"
       "map_option handlerSwitchValue (exceptions st1 ue) = Some 0"
    by auto
  from s0 have s1: "pnacl_eh_resume rt st ue = Some (Landingpad jb1 1 st1, 0)"
    by (simp add: pnacl_eh_resume_def)
  note s = s1 s'
  from Cons.IH [OF s(2,3), of jb1 1 k0] obtain st' where
    i: "resume_cleanups rt ue (Suc (length cs)) (Some (Landingpad jb1 1 st1, k0))
             = Some (Landingpad jbh 1 st', k0 + kh)"
       "pnacl_eh_stack st' = frame_next frh"
       "map_option handlerSwitchValue (exceptions st' ue) = Some c"
       "map_option adjustedPtr (exceptions st' ue) = Some q"
    by blast
  from Cons.prems(2) s(1) i(1) have
    "resume_cleanups rt ue (Suc (length (a # cs))) (Some (Landingpad jb v st, k0))
             = Some (Landingpad jbh 1 st', k0 + kh)"
    by (auto split: option.splits)
  with i show ?case by blast
qed


lemma resume_calls_are_the_search:
  assumes "pnacl_eh_resume rt st ue = Some (e, n)"
  shows "\<exists>xh obj0 r q. exceptions st ue = Some xh \<and> get_object_from_ue rt st ue = Some obj0 \<and>
           find_match rt (frames st) (exceptionType xh) (handle_exception_obj rt) obj0
             (pnacl_eh_stack st) = Some (r, q, n)"
proof -
  from assms obtain x where hx: "handle_exception rt st ue False = Some (x, n)"
    by (auto simp: pnacl_eh_resume_def split: option.splits exit.splits)
  then obtain xh where xh: "exceptions st ue = Some xh"
    by (auto simp: handle_exception_def get_exception_header_from_ue_def split: option.splits)
  from hx xh obtain obj0 where o: "get_object_from_ue rt st ue = Some obj0"
    by (auto simp: handle_exception_def get_exception_header_from_ue_def split: option.splits)
  from hx xh o obtain r q k where
    fm: "find_match rt (frames st) (exceptionType xh) (handle_exception_obj rt) obj0
           (pnacl_eh_stack st) = Some (r, q, k)"
    by (auto simp: handle_exception_def get_exception_header_from_ue_def split: option.splits)
  from hx have "k = n"
    by (auto simp: handle_exception_unfold [OF xh o fm] split: option.splits)
  with xh o fm show ?thesis by blast
qed

lemma resume_commits_as_raise:
  assumes "pnacl_eh_sjlj_Unwind_RaiseException rt st ue = Some (Landingpad jb v st', n)"
  shows "\<exists>n'. n' \<le> n \<and> pnacl_eh_resume rt st ue = Some (Landingpad jb v st', n')"
proof -
  from assms have "handle_exception rt st ue True = Some (Longjmp jb v st', n)"
    by (auto simp: pnacl_eh_sjlj_Unwind_RaiseException_def split: option.splits exit.splits)
  from handle_exception_Longjmp [OF this] obtain xh obj0 frame fr cid obj_val k where
    h: "exceptions st ue = Some xh" "get_object_from_ue rt st ue = Some obj0"
       "find_match rt (frames st) (exceptionType xh) (handle_exception_obj rt) obj0
          (pnacl_eh_stack st) = Some (Some (frame, cid), obj_val, k)"
       "frames st frame = Some fr"
       "enter_landingpad st ue xh frame fr obj_val cid = Some (Longjmp jb v st')"
    and n: "if True \<and> cid = 0
     then \<exists>k'. is_exception_caught rt (frames st) (exceptionType xh) obj_val (frame_next fr)
                  = Some (True, k') \<and> n = k + k'
     else n = k"
    by blast
  from n have "k \<le> n" by (auto split: if_splits)
  moreover have "pnacl_eh_resume rt st ue = Some (Landingpad jb v st', k)"
    by (simp add: pnacl_eh_resume_def handle_exception_unfold [OF h(1,2,3)] h(4,5))
  ultimately show ?thesis by blast
qed

text \<open>
  C6. Let the stack consist of \<open>N\<close> cleanup-only frames, then a frame whose clause
  list yields a non-cleanup match after \<open>kh\<close> comparator calls when the search walks
  it and after \<open>kp\<close> when the probe walks it, then any further frames. A raise
  followed by the \<open>N\<close> resumes of the cleanup landing pads ends in that frame's
  landing pad, with its clause id and adjusted pointer in the header, after \<open>kp + kh\<close>
  comparator calls (\<open>kh\<close> when \<open>N = 0\<close>): the number does not grow with \<open>N\<close>. And on
  every memory: the comparator calls of \<^verbatim>\<open>__pnacl_eh_resume\<close> are exactly those
  of its search, so it runs no probe; and whenever a raise commits, a resume from the
  same memory commits to the same landing pad and the same memory, with no more calls.
\<close>

theorem resume_skips_probe:
  assumes "cleanups_above rt st ue ty obj0 cs h frh"
    and "storage frh = Jmpbuf jbh"
    and "does_frame_match rt ty (handle_exception_obj rt) obj0 frh = Some (Some c, q, kh)"
    and "c \<noteq> 0"
    and "does_frame_match rt ty (is_exception_caught_obj rt) obj0 frh = Some (Some c', q', kp)"
    and "c' \<noteq> 0"
  shows "(\<exists>st' k. unwind rt st ue (length cs) = Some (Landingpad jbh 1 st', k) \<and>
            k = (if cs = [] then kh else kp + kh) \<and>
            pnacl_eh_stack st' = frame_next frh \<and>
            map_option handlerSwitchValue (exceptions st' ue) = Some c \<and>
            map_option adjustedPtr (exceptions st' ue) = Some q)
       \<and> (\<forall>st0 ue0 e n. pnacl_eh_resume rt st0 ue0 = Some (e, n) \<longrightarrow>
            (\<exists>xh r p. exceptions st0 ue0 = Some xh \<and>
               map_option (\<lambda>obj. find_match rt (frames st0) (exceptionType xh)
                   (handle_exception_obj rt) obj (pnacl_eh_stack st0))
                 (get_object_from_ue rt st0 ue0) = Some (Some (r, p, n))))
       \<and> (\<forall>st0 ue0 jb v st1 n.
            pnacl_eh_sjlj_Unwind_RaiseException rt st0 ue0 = Some (Landingpad jb v st1, n) \<longrightarrow>
            (\<exists>n'. n' \<le> n \<and> pnacl_eh_resume rt st0 ue0 = Some (Landingpad jb v st1, n')))"
proof -
  have 1: "\<exists>st' k. unwind rt st ue (length cs) = Some (Landingpad jbh 1 st', k) \<and>
            k = (if cs = [] then kh else kp + kh) \<and>
            pnacl_eh_stack st' = frame_next frh \<and>
            map_option handlerSwitchValue (exceptions st' ue) = Some c \<and>
            map_option adjustedPtr (exceptions st' ue) = Some q"
  proof (cases cs)
    case Nil
    with assms(1) have ca: "cleanups_above rt st ue ty obj0 [] h frh" by simp
    from resume_at_handler [where chk = True, OF ca assms(2,3,4)] obtain st' where
      s: "handle_exception rt st ue True = Some (Longjmp jbh 1 st', kh)"
       "pnacl_eh_stack st' = frame_next frh"
       "map_option handlerSwitchValue (exceptions st' ue) = Some c"
       "map_option adjustedPtr (exceptions st' ue) = Some q"
      by blast
    from s(1) Nil have "unwind rt st ue (length cs) = Some (Landingpad jbh 1 st', kh)"
      by (simp add: unwind_def pnacl_eh_sjlj_Unwind_RaiseException_def)
    with s Nil show ?thesis by auto
  next
    case (Cons a cs')
    from assms(1) Cons have ca: "cleanups_above rt st ue ty obj0 (a # cs') h frh" by simp
    from handle_exception_at_cleanup [where chk = True, OF ca assms(5,6)]
    obtain jb1 st1 where
      s0: "handle_exception rt st ue True = Some (Longjmp jb1 1 st1, kp)"
      and s': "cleanups_above rt st1 ue ty obj0 cs' h frh"
       "map_option handlerSwitchValue (exceptions st1 ue) = Some 0"
      by auto
    from s0 have r: "pnacl_eh_sjlj_Unwind_RaiseException rt st ue = Some (Landingpad jb1 1 st1, kp)"
      by (simp add: pnacl_eh_sjlj_Unwind_RaiseException_def)
    from resume_cleanups_scenario [OF s' assms(2,3,4,5,6), of jb1 1 kp] obtain st' where
      i: "resume_cleanups rt ue (Suc (length cs')) (Some (Landingpad jb1 1 st1, kp))
             = Some (Landingpad jbh 1 st', kp + kh)"
         "pnacl_eh_stack st' = frame_next frh"
         "map_option handlerSwitchValue (exceptions st' ue) = Some c"
         "map_option adjustedPtr (exceptions st' ue) = Some q"
      by blast
    from i(1) r Cons have "unwind rt st ue (length cs) = Some (Landingpad jbh 1 st', kp + kh)"
      by (simp add: unwind_def)
    with i Cons show ?thesis by auto
  qed
  have 2: "\<exists>xh r p. exceptions st0 ue0 = Some xh \<and>
               map_option (\<lambda>obj. find_match rt (frames st0) (exceptionType xh)
                   (handle_exception_obj rt) obj (pnacl_eh_stack st0))
                 (get_object_from_ue rt st0 ue0) = Some (Some (r, p, n))"
    if "pnacl_eh_resume rt st0 ue0 = Some (e, n)" for st0 ue0 e n
    using resume_calls_are_the_search [OF that] by auto
  from 1 2 resume_commits_as_raise show ?thesis by blast
qed

lemma ex_cleanups_above:
  "cleanups_above (ex_rt cc_same) (ex_state 40) 500 100 532 [40, 50] 20 (ex_frame 1020 30 2)"
  unfolding cleanups_above_def
  by (simp add: ex_defs cleanup_only_def get_object_from_ue_def exI [of _ "[30]"])

theorem resume_skips_probe_witness:
  "\<exists>st'. unwind (ex_rt cc_same) (ex_state 40) 500 2 = Some (Landingpad 1020 1 st', 2)"
proof -
  have 1: "storage (ex_frame 1020 30 2) = Jmpbuf 1020" by (simp add: ex_frame_def)
  have 2: "does_frame_match (ex_rt cc_same) 100 (handle_exception_obj (ex_rt cc_same)) 532
              (ex_frame 1020 30 2) = Some (Some 1, 532, 1)"
    by (simp add: ex_defs run_defs)
  have 3: "does_frame_match (ex_rt cc_same) 100 (is_exception_caught_obj (ex_rt cc_same)) 532
              (ex_frame 1020 30 2) = Some (Some 1, 532, 1)"
    by (simp add: ex_defs run_defs)
  from resume_skips_probe [OF ex_cleanups_above 1 2 _ 3] show ?thesis
    by (auto simp: numeral_2_eq_2)
qed

end
